theory Spec2Isabelle
  imports Complex_Main "HOL-Library.Word" "HOL-Library.Log_Nat"
begin

unbundle bit_operations_syntax

section \<open>The thumbnail disk cache of swayimg (src/thumbnail.c)\<close>

text \<open>
  A shallow embedding of \<^verbatim>\<open>src/thumbnail.c\<close>. The C functions read and change the
  process environment, a static variable, the file system and the heap; the model threads
  one record, the \<open>world\<close>, through every call. Integers are machine words of the
  LP64 ABI (\<^verbatim>\<open>size_t\<close> is 64 bits, \<^verbatim>\<open>uint32_t\<close> 32 bits), file contents are lists
  of bytes, path names are strings.
\<close>

subsection \<open>Bytes and the text of the header\<close>

type_synonym byte = "8 word"
type_synonym size_t = "64 word"
type_synonym argb_t = "32 word"
type_synonym path = string

text \<open>\<^verbatim>\<open>isspace\<close> and \<^verbatim>\<open>isdigit\<close> of the C locale.\<close>

definition isspace :: "byte \<Rightarrow> bool" where
  "isspace c \<longleftrightarrow> c = 0x20 \<or> (0x09 \<le> c \<and> c \<le> 0x0D)"

definition isdigit :: "byte \<Rightarrow> bool" where
  "isdigit c \<longleftrightarrow> 0x30 \<le> c \<and> c \<le> 0x39"

text \<open>\<^verbatim>\<open>%zu\<close> of \<^verbatim>\<open>fprintf\<close>: the decimal digits of a number, most significant first.\<close>

fun show_nat :: "nat \<Rightarrow> byte list" where
  "show_nat n =
     (if n < 10 then [of_nat (48 + n)]
      else show_nat (n div 10) @ [of_nat (48 + n mod 10)])"

declare show_nat.simps [simp del]

text \<open>
  The bytes \<^verbatim>\<open>fprintf(fp, "P6\n%zu %zu\n255\n", thumb->width, thumb->height)\<close> produces.
\<close>

definition header_bytes :: "size_t \<Rightarrow> size_t \<Rightarrow> byte list" where
  "header_bytes wd ht =
     [0x50, 0x36, 0x0A] @ show_nat (unat wd) @ [0x20] @ show_nat (unat ht) @
     [0x0A, 0x32, 0x35, 0x35, 0x0A]"

text \<open>The value of a digit string, read left to right.\<close>

definition digits_value :: "byte list \<Rightarrow> nat" where
  "digits_value ds = foldl (\<lambda>acc d. 10 * acc + (unat d - 48)) 0 ds"

text \<open>
  The conversion \<^verbatim>\<open>%2s\<close> of \<^verbatim>\<open>fscanf\<close>: white space is skipped, then at most two
  bytes that are not white space are taken. At the end of the input there is nothing to
  convert (\<open>None\<close>).
\<close>

definition scan_s2 :: "byte list \<Rightarrow> (byte list \<times> byte list) option" where
  "scan_s2 s =
     (let s1 = dropWhile isspace s in
      if s1 = [] then None
      else let tok = take 2 (takeWhile (\<lambda>c. \<not> isspace c) s1)
           in Some (tok, drop (length tok) s1))"

text \<open>
  The conversion \<^verbatim>\<open>%zu\<close> of \<^verbatim>\<open>fscanf\<close>: white space is skipped, then an optional
  sign and a non-empty run of decimal digits are read as \<^verbatim>\<open>strtoul\<close> reads them: a
  leading minus negates the value modulo \<open>2^64\<close>, and a value that does not fit
  becomes the largest \<^verbatim>\<open>size_t\<close> (the behaviour of glibc; ISO C leaves it open).
\<close>

definition scan_zu :: "byte list \<Rightarrow> (size_t \<times> byte list) option" where
  "scan_zu s =
     (let s1 = dropWhile isspace s;
          neg = (s1 \<noteq> [] \<and> hd s1 = 0x2D);
          s2 = (if s1 \<noteq> [] \<and> (hd s1 = 0x2D \<or> hd s1 = 0x2B) then tl s1 else s1);
          ds = takeWhile isdigit s2;
          v = digits_value ds
      in if ds = [] then None
         else Some (if 2 ^ 64 \<le> v then - 1 else if neg then - of_nat v else of_nat v,
                    drop (length ds) s2))"

text \<open>
  A literal of the format: bytes are consumed while they agree; at the first byte that
  differs the scan stops there.
\<close>

fun match_literal :: "byte list \<Rightarrow> byte list \<Rightarrow> bool \<times> byte list" where
  "match_literal [] s = (True, s)"
| "match_literal (l # ls) [] = (False, [])"
| "match_literal (l # ls) (c # cs) =
     (if l = c then match_literal ls cs else (False, c # cs))"

subsection \<open>Pixel maps\<close>

text \<open>
  \<^verbatim>\<open>struct pixmap\<close>: width, height and the pointer to the pixel buffer. The pointer is
  an address of the model's heap; \<open>0\<close> is \<^verbatim>\<open>NULL\<close>.
\<close>

record pixmap =
  width :: size_t
  height :: size_t
  data :: nat

subsection \<open>The world: environment, static variable, file system, heap\<close>

text \<open>
  A file system entry is a directory or a regular file; both carry the status-change
  time \<^verbatim>\<open>st_ctime\<close>, a file also its content.
\<close>

datatype node = Dir int | File int "byte list"

fun node_ctime :: "node \<Rightarrow> int" where
  "node_ctime (Dir t) = t"
| "node_ctime (File t c) = t"

text \<open>
  \<^item> \<open>env_xdg_cache_home\<close>, \<open>env_home\<close>: the two environment variables
    (\<open>None\<close>: unset);
  \<^item> \<open>cache_dir\<close>: the variable \<^verbatim>\<open>static char* cache_dir\<close> of
    \<^verbatim>\<open>get_thumb_path\<close> (\<open>None\<close>: \<^verbatim>\<open>NULL\<close>, its value when the process starts);
  \<^item> \<open>fs\<close>: the file system, keyed by the path name as the code passes it to the
    system (the model does not resolve \<^verbatim>\<open>.\<close>, \<^verbatim>\<open>..\<close>, repeated slashes or links);
  \<^item> \<open>now\<close>: the clock that stamps the entries this call creates or writes;
  \<^item> \<open>free_space\<close>: the number of bytes the file system can still take;
  \<^item> \<open>open_files\<close>, \<open>max_open\<close>: the number of open streams and its limit;
  \<^item> \<open>heap\<close>: the pixel buffers; the buffer at address \<open>a > 0\<close> is entry
    \<open>a - 1\<close> of the list, \<open>None\<close> once freed;
  \<^item> \<open>mem_free\<close>: the number of pixels that can still be allocated.
\<close>

record world =
  env_xdg_cache_home :: "string option"
  env_home :: "string option"
  cache_dir :: "string option"
  fs :: "path \<Rightarrow> node option"
  now :: int
  free_space :: nat
  open_files :: nat
  max_open :: nat
  heap :: "argb_t list option list"
  mem_free :: nat

subsubsection \<open>The calls of the C library and of the system\<close>

text \<open>\<^verbatim>\<open>stat\<close>: the status-change time of the entry, \<open>None\<close> when there is none.\<close>

definition stat :: "world \<Rightarrow> path \<Rightarrow> int option" where
  "stat w p = map_option node_ctime (fs w p)"

text \<open>The directory part of a path name: everything before its last slash.\<close>

definition dirname :: "path \<Rightarrow> path" where
  "dirname p = rev (tl (dropWhile (\<lambda>c. c \<noteq> CHR ''/'') (rev p)))"

text \<open>
  An entry can be created at \<open>p\<close> when its directory part is empty (the root, or the
  working directory of a relative name) or names a directory.
\<close>

definition parent_is_dir :: "world \<Rightarrow> path \<Rightarrow> bool" where
  "parent_is_dir w p \<longleftrightarrow>
     dirname p = [] \<or> (case fs w (dirname p) of Some (Dir t) \<Rightarrow> True | _ \<Rightarrow> False)"

datatype errno = EEXIST | ENOENT

text \<open>\<^verbatim>\<open>mkdir\<close>: \<open>None\<close> is success, otherwise the value of \<^verbatim>\<open>errno\<close>.\<close>

definition mkdir :: "world \<Rightarrow> path \<Rightarrow> world \<times> errno option" where
  "mkdir w p =
     (if fs w p \<noteq> None then (w, Some EEXIST)
      else if p \<noteq> [] \<and> parent_is_dir w p
      then (w\<lparr>fs := (fs w)(p \<mapsto> Dir (now w))\<rparr>, None)
      else (w, Some ENOENT))"

text \<open>
  \<^verbatim>\<open>fopen(path, "wb")\<close>: fails at the limit of open streams, on a name that is empty or
  ends in a slash, on a directory, and where the directory part is no directory.
  Otherwise the file is created, or truncated (its space is given back), and the stream
  is the path it writes to.
\<close>

definition fopen_wb :: "world \<Rightarrow> path \<Rightarrow> world \<times> path option" where
  "fopen_wb w p =
     (if max_open w \<le> open_files w \<or> p = [] \<or> last p = CHR ''/'' then (w, None)
      else case fs w p of
        Some (Dir t) \<Rightarrow> (w, None)
      | Some (File t c) \<Rightarrow>
          (w\<lparr>fs := (fs w)(p \<mapsto> File (now w) []),
             free_space := free_space w + length c,
             open_files := open_files w + 1\<rparr>, Some p)
      | None \<Rightarrow>
          if parent_is_dir w p
          then (w\<lparr>fs := (fs w)(p \<mapsto> File (now w) []),
                  open_files := open_files w + 1\<rparr>, Some p)
          else (w, None))"

text \<open>
  \<^verbatim>\<open>fwrite\<close> and \<^verbatim>\<open>fprintf\<close> on a stream opened for writing: the bytes are appended
  to the file as far as the free space reaches; what does not fit is lost. The code
  never looks at the result of a write, so the model returns none. (The buffer of the
  stream is not modelled: the file holds what it holds after \<^verbatim>\<open>fclose\<close>.)
\<close>

definition fwrite :: "world \<Rightarrow> path \<Rightarrow> byte list \<Rightarrow> world" where
  "fwrite w fp bs =
     (case fs w fp of
        Some (File t c) \<Rightarrow>
          w\<lparr>fs := (fs w)(fp \<mapsto> File (now w) (c @ take (free_space w) bs)),
            free_space := free_space w - length bs\<rparr>
      | _ \<Rightarrow> w)"

text \<open>
  \<^verbatim>\<open>fopen(path, "rb")\<close>: the stream is the list of the bytes still to be read. A
  directory opens too, and every read from it fails, as at the end of a file.
\<close>

definition fopen_rb :: "world \<Rightarrow> path \<Rightarrow> world \<times> byte list option" where
  "fopen_rb w p =
     (if max_open w \<le> open_files w then (w, None)
      else case fs w p of
        None \<Rightarrow> (w, None)
      | Some (Dir t) \<Rightarrow> (w\<lparr>open_files := open_files w + 1\<rparr>, Some [])
      | Some (File t c) \<Rightarrow> (w\<lparr>open_files := open_files w + 1\<rparr>, Some c))"

definition fclose :: "world \<Rightarrow> world" where
  "fclose w = w\<lparr>open_files := open_files w - 1\<rparr>"

subsubsection \<open>The pixel buffers\<close>

text \<open>The buffer a pointer refers to, if it is live.\<close>

definition buffer_at :: "world \<Rightarrow> nat \<Rightarrow> argb_t list option" where
  "buffer_at w a = (if 0 < a \<and> a \<le> length (heap w) then heap w ! (a - 1) else None)"

text \<open>
  Modelled from the spec: \<^verbatim>\<open>pixmap_create\<close> and \<^verbatim>\<open>pixmap_free\<close> are declared in
  \<^verbatim>\<open>pixmap.h\<close>, which is not among the sources; the spec names them as the allocation
  and the release of a pixel map of the pixel-resampling collaborator. The allocation
  fails when the memory does not suffice and then leaves the pixel map as it is;
  otherwise the pixel map gets the dimensions and a fresh buffer of
  \<open>width * height\<close> zeroed pixels. The release frees the buffer.
\<close>

definition pixmap_create :: "world \<Rightarrow> pixmap \<Rightarrow> size_t \<Rightarrow> size_t \<Rightarrow> world \<times> pixmap \<times> bool" where
  "pixmap_create w pm wd ht =
     (let n = unat wd * unat ht in
      if mem_free w < n then (w, pm, False)
      else (w\<lparr>heap := heap w @ [Some (replicate n 0)], mem_free := mem_free w - n\<rparr>,
            \<lparr>width = wd, height = ht, data = length (heap w) + 1\<rparr>, True))"

definition pixmap_free :: "world \<Rightarrow> pixmap \<Rightarrow> world" where
  "pixmap_free w pm =
     (case buffer_at w (data pm) of
        None \<Rightarrow> w
      | Some b \<Rightarrow> w\<lparr>heap := (heap w)[data pm - 1 := None],
                    mem_free := mem_free w + length b\<rparr>)"

text \<open>
  Modelled from the spec: the macro \<^verbatim>\<open>ARGB\<close> is defined in \<^verbatim>\<open>pixmap.h\<close>, which is
  not among the sources; the spec describes a packed pixel as a 32-bit value holding one
  byte each for alpha, red, green and blue.
\<close>

definition ARGB :: "byte \<Rightarrow> byte \<Rightarrow> byte \<Rightarrow> byte \<Rightarrow> argb_t" where
  "ARGB a r g b =
     push_bit 24 (ucast a) OR push_bit 16 (ucast r) OR push_bit 8 (ucast g) OR ucast b"

subsection \<open>The path of a cache entry\<close>

definition PATH_MAX :: nat where
  "PATH_MAX = 4096"

text \<open>
  \<^verbatim>\<open>get_thumb_path\<close>. The cache root is resolved on the first call and kept in the
  static variable. \<^verbatim>\<open>strcat\<close> appends to the string \<^verbatim>\<open>getenv\<close> returned, in place,
  so the variable of the environment reads the same afterwards (what the bytes behind
  the string held before is not modelled). \<^verbatim>\<open>snprintf\<close> returns the length of
  root and source together; the path is good when it is below \<^verbatim>\<open>PATH_MAX\<close>.
\<close>

definition get_thumb_path :: "world \<Rightarrow> string \<Rightarrow> world \<times> path option" where
  "get_thumb_path w source =
     (let w1 =
        (case cache_dir w of
           Some d \<Rightarrow> Some w
         | None \<Rightarrow>
             (case env_xdg_cache_home w of
                Some x \<Rightarrow>
                  Some (w\<lparr>env_xdg_cache_home := Some (x @ ''/swayimg''),
                          cache_dir := Some (x @ ''/swayimg'')\<rparr>)
              | None \<Rightarrow>
                  (case env_home w of
                     None \<Rightarrow> None
                   | Some h \<Rightarrow>
                       Some (w\<lparr>env_home := Some (h @ ''/.swayimg''),
                               cache_dir := Some (h @ ''/.swayimg'')\<rparr>))))
      in case w1 of
           None \<Rightarrow> (w, None)
         | Some w2 \<Rightarrow>
             (let p = the (cache_dir w2) @ source
              in (w2, if length p < PATH_MAX then Some p else None)))"

text \<open>
  \<^verbatim>\<open>make_directories\<close>. The loop looks for the next slash after the first byte of the
  path and makes the directory named by the bytes before it; \<open>pre\<close> holds the bytes
  already passed, \<open>rest\<close> the bytes still to be searched.
\<close>

fun make_directories_loop :: "world \<Rightarrow> path \<Rightarrow> path \<Rightarrow> world \<times> bool" where
  "make_directories_loop w pre [] = (w, True)"
| "make_directories_loop w pre (c # rest) =
     (if c = CHR ''/''
      then (case mkdir w pre of
              (w1, Some e) \<Rightarrow>
                if e \<noteq> EEXIST then (w1, False)
                else make_directories_loop w1 (pre @ [c]) rest
            | (w1, None) \<Rightarrow> make_directories_loop w1 (pre @ [c]) rest)
      else make_directories_loop w (pre @ [c]) rest)"

definition make_directories :: "world \<Rightarrow> path \<Rightarrow> world \<times> bool" where
  "make_directories w p =
     (case p of
        [] \<Rightarrow> (w, False)
      | c # rest \<Rightarrow> make_directories_loop w [c] rest)"

subsection \<open>Saving a thumbnail\<close>

text \<open>
  The three bytes written for a pixel: bits 16 to 23, bits 8 to 15 and bits 0 to 7 of
  the packed value. The alpha byte is not written.
\<close>

definition pixel_rgb :: "argb_t \<Rightarrow> byte list" where
  "pixel_rgb px =
     [ucast (drop_bit 16 px AND 0xff), ucast (drop_bit 8 px AND 0xff),
      ucast (drop_bit 0 px AND 0xff)]"

text \<open>
  The pixel loop of \<^verbatim>\<open>thumbnail_save\<close>. The counter \<open>i\<close> is a \<^verbatim>\<open>uint32_t\<close>
  and wraps; it is compared with the product of the dimensions as a \<^verbatim>\<open>size_t\<close>.
  With a product of \<open>2^32\<close> or more the loop never ends; a read outside the buffer
  is undefined. In both cases the call has no result (\<open>None\<close>).
\<close>

partial_function (option) save_pixels ::
  "world \<Rightarrow> path \<Rightarrow> size_t \<Rightarrow> argb_t list \<Rightarrow> 32 word \<Rightarrow> world option" where
  "save_pixels w fp n buf i =
     (if ucast i < n
      then (if unat i < length buf
            then save_pixels (fwrite w fp (pixel_rgb (buf ! unat i))) fp n buf (i + 1)
            else None)
      else Some w)"

declare save_pixels.simps [code]

text \<open>The pixels \<^verbatim>\<open>thumb->data\<close> points to; none where the pointer is not live.\<close>

definition pixels_of :: "world \<Rightarrow> pixmap \<Rightarrow> argb_t list" where
  "pixels_of w pm = (case buffer_at w (data pm) of Some b \<Rightarrow> b | None \<Rightarrow> [])"

text \<open>
  \<^verbatim>\<open>thumbnail_save\<close>. The parameters are given as the bytes of the object
  \<^verbatim>\<open>*params\<close>, which is what \<^verbatim>\<open>fwrite\<close> writes; their number is
  \<^verbatim>\<open>sizeof(struct thumbnail_params)\<close>.
\<close>

definition thumbnail_save ::
  "world \<Rightarrow> pixmap \<Rightarrow> string \<Rightarrow> byte list \<Rightarrow> (world \<times> bool) option" where
  "thumbnail_save w thumb source params =
     (case get_thumb_path w source of
        (w1, None) \<Rightarrow> Some (w1, False)
      | (w1, Some p) \<Rightarrow>
          (case make_directories w1 p of
             (w2, made) \<Rightarrow>
               if \<not> made then Some (w2, False)
               else (case fopen_wb w2 p of
                  (w3, None) \<Rightarrow> Some (w3, False)
                | (w3, Some fp) \<Rightarrow>
                    (let w4 = fwrite w3 fp (header_bytes (width thumb) (height thumb));
                         w5 = fwrite w4 fp [0x23];
                         w6 = fwrite w5 fp params;
                         w7 = fwrite w6 fp [0x0A]
                     in case save_pixels w7 fp (width thumb * height thumb)
                               (pixels_of w7 thumb) 0 of
                          None \<Rightarrow> None
                        | Some w8 \<Rightarrow> Some (fclose w8, True)))))"

subsection \<open>Loading a thumbnail\<close>

text \<open>
  \<^verbatim>\<open>fscanf(fp, "%2s\n%zu %zu\n255\n", header, &thumb->width, &thumb->height)\<close>.
  White space in the format skips any white space of the input. The result is the
  return value (the number of conversions stored, \<open>-1\<close> for \<^verbatim>\<open>EOF\<close>), the bytes
  stored in \<^verbatim>\<open>header\<close>, the pixel map with the fields stored so far, and the rest of
  the stream. The literal \<^verbatim>\<open>255\<close> comes after the last conversion, so it does not
  change the return value.
\<close>

definition fscanf_header :: "byte list \<Rightarrow> pixmap \<Rightarrow> int \<times> byte list \<times> pixmap \<times> byte list" where
  "fscanf_header s thumb =
     (case scan_s2 s of
        None \<Rightarrow> (- 1, [], thumb, [])
      | Some (tok, s1) \<Rightarrow>
          (case scan_zu (dropWhile isspace s1) of
             None \<Rightarrow> (1, tok, thumb, s1)
           | Some (wd, s2) \<Rightarrow>
               (case scan_zu (dropWhile isspace s2) of
                  None \<Rightarrow> (2, tok, thumb\<lparr>width := wd\<rparr>, s2)
                | Some (ht, s3) \<Rightarrow>
                    (case match_literal [0x32, 0x35, 0x35] (dropWhile isspace s3) of
                       (ok, s4) \<Rightarrow>
                         (3, tok, thumb\<lparr>width := wd, height := ht\<rparr>,
                          if ok then dropWhile isspace s4 else s4)))))"

text \<open>
  The pixel loop of \<^verbatim>\<open>thumbnail_load\<close>: three bytes are read for every pixel, and the
  loop gives up (\<open>False\<close>) when fewer are left. A write outside the buffer would be
  undefined (\<open>None\<close>).
\<close>

fun load_pixels ::
  "size_t \<Rightarrow> 32 word \<Rightarrow> byte list \<Rightarrow> argb_t list \<Rightarrow> (bool \<times> argb_t list \<times> byte list) option" where
  "load_pixels n i (r # g # b # s) buf =
     (if ucast i < n
      then (if unat i < length buf
            then load_pixels n (i + 1) s (buf[unat i := ARGB 0xff r g b])
            else None)
      else Some (True, buf, r # g # b # s))"
| "load_pixels n i s buf =
     (if ucast i < n then Some (False, buf, []) else Some (True, buf, s))"

definition store_pixels :: "world \<Rightarrow> pixmap \<Rightarrow> argb_t list \<Rightarrow> world" where
  "store_pixels w pm buf = w\<lparr>heap := (heap w)[data pm - 1 := Some buf]\<rparr>"

text \<open>
  \<^verbatim>\<open>thumbnail_load\<close>, in two parts. The parameters are the bytes of the object
  \<^verbatim>\<open>*params\<close>, as \<^verbatim>\<open>memcmp\<close> reads them. \<open>uninit\<close> stands for the bytes the
  local variable \<^verbatim>\<open>saved_params\<close> holds before anything is read into it:
  \<^verbatim>\<open>fread\<close> overwrites as many of them as the file still has.

  The second part of the function (from \<^verbatim>\<open>char header[3]\<close> to the label
  \<^verbatim>\<open>fail\<close>) works on the open stream \<open>fp\<close>: every path through it closes the
  stream.
\<close>

definition load_stream ::
  "world \<Rightarrow> pixmap \<Rightarrow> byte list \<Rightarrow> byte list \<Rightarrow> byte list \<Rightarrow> (world \<times> pixmap \<times> bool) option" where
  "load_stream w3 thumb params uninit fp =
     (case fscanf_header fp thumb of
        (cnt, header, thumb1, fp1) \<Rightarrow>
          if cnt \<noteq> 3 then Some (fclose w3, thumb1, False)
          else if header \<noteq> [0x50, 0x36] then Some (fclose w3, thumb1, False)
          else
            (let fp2 = drop 1 fp1;
                 got = take (length params) fp2;
                 saved_params = take (length params) (got @ drop (length got) uninit);
                 fp3 = drop (length params) fp2;
                 fp4 = drop 1 fp3
             in if saved_params \<noteq> params then Some (fclose w3, thumb1, False)
                else (case pixmap_create w3 thumb1 (width thumb1) (height thumb1) of
                   (w4, thumb2, created) \<Rightarrow>
                     if \<not> created then Some (fclose w4, thumb2, False)
                     else (case load_pixels (width thumb2 * height thumb2) 0 fp4
                                  (pixels_of w4 thumb2) of
                        None \<Rightarrow> None
                      | Some (all_read, buf, fp5) \<Rightarrow>
                          if \<not> all_read
                          then Some (fclose (pixmap_free (store_pixels w4 thumb2 buf) thumb2),
                                     thumb2, False)
                          else Some (fclose (store_pixels w4 thumb2 buf), thumb2, True)))))"

text \<open>
  The first part resolves the path, compares the status-change times and opens the
  file. \<^verbatim>\<open>difftime(a, b) > 0\<close> holds exactly when \<open>a > b\<close>.
\<close>

definition thumbnail_load ::
  "world \<Rightarrow> pixmap \<Rightarrow> string \<Rightarrow> byte list \<Rightarrow> byte list \<Rightarrow> (world \<times> pixmap \<times> bool) option" where
  "thumbnail_load w thumb source params uninit =
     (case get_thumb_path w source of
        (w1, p1) \<Rightarrow>
          if p1 = None \<or> stat w1 source = None \<or> stat w1 (the p1) = None \<or>
             the (stat w1 source) > the (stat w1 (the p1))
          then Some (w1, thumb, False)
          else (case get_thumb_path w1 source of
             (w2, None) \<Rightarrow> Some (w2, thumb, False)
           | (w2, Some p) \<Rightarrow>
               (case fopen_rb w2 p of
                  (w3, None) \<Rightarrow> Some (w3, thumb, False)
                | (w3, Some fp) \<Rightarrow> load_stream w3 thumb params uninit fp)))"

subsection \<open>Floating point\<close>

text \<open>
  The values of \<^verbatim>\<open>float\<close> and \<^verbatim>\<open>double\<close> (IEEE 754 binary32 and binary64) are
  modelled by what they denote: a rational number, an infinity, or not a number. The
  sign of zero is not modelled: every operation of this file starts from unsigned
  integers, so it never produces a negative zero, and the one test made on a float,
  \<^verbatim>\<open>scale > 1.0\<close>, does not depend on it. Expressions are evaluated in the precision of
  their type (\<^verbatim>\<open>FLT_EVAL_METHOD\<close> is 0, as on x86-64).
\<close>

datatype fp = Finite rat | PInf | NInf | NaN

text \<open>The exponent of a positive rational: the \<open>e\<close> with \<open>2^e \<le> x < 2^(e+1)\<close>.\<close>

definition ilog2 :: "rat \<Rightarrow> int" where
  "ilog2 x =
     (case quotient_of x of
        (a, b) \<Rightarrow> let e = bitlen a - bitlen b in if 2 powi e \<le> x then e else e - 1)"

text \<open>Rounding to the nearest integer, a tie to the even one.\<close>

definition round_half_even :: "rat \<Rightarrow> int" where
  "round_half_even r =
     (let f = \<lfloor>r\<rfloor>; d = r - of_int f
      in if d < 1 / 2 then f else if 1 / 2 < d then f + 1 else if even f then f else f + 1)"

text \<open>
  Rounding to nearest, ties to even, into the format with \<open>p\<close> bits of precision and
  exponents from \<open>emin\<close> to \<open>emax\<close>: the magnitude is rounded to a multiple of the
  unit in the last place of its binade (of the smallest binade for a subnormal result),
  and a result beyond the largest finite number becomes an infinity.
\<close>

definition fp_round :: "nat \<Rightarrow> int \<Rightarrow> int \<Rightarrow> rat \<Rightarrow> fp" where
  "fp_round p emin emax x =
     (if x = 0 then Finite 0
      else let a = \<bar>x\<bar>;
               e = max (ilog2 a) emin;
               q = 2 powi (e - (int p - 1));
               y = of_int (round_half_even (a / q)) * q
           in if 2 powi (emax + 1) \<le> y then (if 0 < x then PInf else NInf)
              else Finite (sgn x * y))"

definition f32_round :: "rat \<Rightarrow> fp" where
  "f32_round = fp_round 24 (- 126) 127"

definition f64_round :: "rat \<Rightarrow> fp" where
  "f64_round = fp_round 53 (- 1022) 1023"

text \<open>Division and multiplication, with the rounding of the result type as parameter.\<close>

fun fp_div :: "(rat \<Rightarrow> fp) \<Rightarrow> fp \<Rightarrow> fp \<Rightarrow> fp" where
  "fp_div rnd NaN y = NaN"
| "fp_div rnd x NaN = NaN"
| "fp_div rnd (Finite a) (Finite b) =
     (if b = 0 then (if a = 0 then NaN else if 0 < a then PInf else NInf) else rnd (a / b))"
| "fp_div rnd (Finite a) y = Finite 0"
| "fp_div rnd PInf (Finite b) = (if 0 \<le> b then PInf else NInf)"
| "fp_div rnd NInf (Finite b) = (if 0 \<le> b then NInf else PInf)"
| "fp_div rnd x y = NaN"

fun fp_mul :: "(rat \<Rightarrow> fp) \<Rightarrow> fp \<Rightarrow> fp \<Rightarrow> fp" where
  "fp_mul rnd NaN y = NaN"
| "fp_mul rnd x NaN = NaN"
| "fp_mul rnd (Finite a) (Finite b) = rnd (a * b)"
| "fp_mul rnd (Finite a) PInf = (if a = 0 then NaN else if 0 < a then PInf else NInf)"
| "fp_mul rnd (Finite a) NInf = (if a = 0 then NaN else if 0 < a then NInf else PInf)"
| "fp_mul rnd PInf (Finite b) = (if b = 0 then NaN else if 0 < b then PInf else NInf)"
| "fp_mul rnd NInf (Finite b) = (if b = 0 then NaN else if 0 < b then NInf else PInf)"
| "fp_mul rnd PInf PInf = PInf"
| "fp_mul rnd NInf NInf = PInf"
| "fp_mul rnd x y = NInf"

text \<open>The comparison \<^verbatim>\<open><\<close>: false when an operand is not a number.\<close>

fun fp_less :: "fp \<Rightarrow> fp \<Rightarrow> bool" where
  "fp_less NaN y = False"
| "fp_less x NaN = False"
| "fp_less (Finite a) (Finite b) = (a < b)"
| "fp_less (Finite a) PInf = True"
| "fp_less NInf (Finite b) = True"
| "fp_less NInf PInf = True"
| "fp_less x y = False"

text \<open>
  The conversions: \<^verbatim>\<open>size_t\<close> to \<^verbatim>\<open>float\<close> rounds; \<^verbatim>\<open>float\<close> to \<^verbatim>\<open>double\<close>
  keeps the value (so it is not written in the model); \<^verbatim>\<open>double\<close> to \<^verbatim>\<open>float\<close>
  rounds; \<^verbatim>\<open>float\<close> to \<^verbatim>\<open>size_t\<close> drops the fraction, and is undefined
  (\<open>None\<close>) when the result is not a value of \<^verbatim>\<open>size_t\<close>.
\<close>

definition f32_of_size_t :: "size_t \<Rightarrow> fp" where
  "f32_of_size_t n = f32_round (of_nat (unat n))"

fun f32_of_f64 :: "fp \<Rightarrow> fp" where
  "f32_of_f64 (Finite x) = f32_round x"
| "f32_of_f64 y = y"

fun size_t_of_f32 :: "fp \<Rightarrow> size_t option" where
  "size_t_of_f32 (Finite x) =
     (if - 1 < x \<and> x < 2 ^ 64 then Some (of_int (if 0 \<le> x then \<lfloor>x\<rfloor> else 0)) else None)"
| "size_t_of_f32 y = None"

text \<open>
  Modelled from the spec: the macros \<^verbatim>\<open>min\<close> and \<^verbatim>\<open>max\<close> are not defined in the
  sources given; the spec says the effective scale is the maximum of the two factors
  under fill and the minimum otherwise. They are taken as the usual conditional
  expressions.
\<close>

definition fp_min :: "fp \<Rightarrow> fp \<Rightarrow> fp" where
  "fp_min a b = (if fp_less a b then a else b)"

definition fp_max :: "fp \<Rightarrow> fp \<Rightarrow> fp" where
  "fp_max a b = (if fp_less b a then a else b)"

subsection \<open>The geometry of a thumbnail\<close>

text \<open>
  \<^verbatim>\<open>struct thumbnail_params\<close>, with the fields the code initialises. The signed
  offsets are kept as the 64-bit words the subtraction leaves; \<open>sint\<close> reads them.
\<close>

type_synonym ssize_t = "64 word"

record thumbnail_params =
  thumb_width :: size_t
  thumb_height :: size_t
  offset_x :: ssize_t
  offset_y :: ssize_t
  fill :: bool
  antialias :: bool
  scale :: fp

text \<open>
  Of \<^verbatim>\<open>struct image\<close> the code reads the pixel map of the first frame and the alpha
  flag. An image without frames has no first frame: reading it is undefined.
\<close>

record image =
  frames :: "pixmap list"
  alpha :: bool

text \<open>
  The scale factor of one axis, \<^verbatim>\<open>1.0 / ((float)dim / size)\<close>: a \<^verbatim>\<open>float\<close>
  division, a \<^verbatim>\<open>double\<close> division, and the conversion to \<^verbatim>\<open>float\<close> of the
  initialisation.
\<close>

definition axis_scale :: "size_t \<Rightarrow> size_t \<Rightarrow> fp" where
  "axis_scale extent sz =
     f32_of_f64 (fp_div f64_round (Finite 1)
        (fp_div f32_round (f32_of_size_t extent) (f32_of_size_t sz)))"

text \<open>The scaled dimension \<^verbatim>\<open>scale * dim\<close>, converted to \<^verbatim>\<open>size_t\<close>.\<close>

definition scaled_dim :: "fp \<Rightarrow> size_t \<Rightarrow> size_t option" where
  "scaled_dim s extent = size_t_of_f32 (fp_mul f32_round s (f32_of_size_t extent))"

text \<open>
  \<^verbatim>\<open>thumbnail_params\<close>. The result is \<open>None\<close> where the C function has no defined
  behaviour: no first frame, or a scaled dimension that is not a value of
  \<^verbatim>\<open>size_t\<close>.
\<close>

definition thumbnail_params :: "image \<Rightarrow> size_t \<Rightarrow> bool \<Rightarrow> bool \<Rightarrow> thumbnail_params option" where
  "thumbnail_params img sz fl aa =
     (case frames img of
        [] \<Rightarrow> None
      | full # others \<Rightarrow>
          (let scale_width = axis_scale (width full) sz;
               scale_height = axis_scale (height full) sz;
               sc = (if fl then fp_max scale_width scale_height
                     else fp_min scale_width scale_height)
           in case (scaled_dim sc (width full), scaled_dim sc (height full)) of
                (Some tw, Some th) \<Rightarrow>
                  Some (if fl
                        then \<lparr>thumb_width = sz, thumb_height = sz,
                              offset_x = sz div 2 - tw div 2,
                              offset_y = sz div 2 - th div 2,
                              fill = fl, antialias = aa, scale = sc\<rparr>
                        else \<lparr>thumb_width = tw, thumb_height = th,
                              offset_x = 0, offset_y = 0,
                              fill = fl, antialias = aa, scale = sc\<rparr>)
              | _ \<Rightarrow> None))"

subsection \<open>Creating a thumbnail\<close>

text \<open>The resampling algorithms, \<^verbatim>\<open>enum pixmap_scale\<close>.\<close>

datatype pixmap_scale = pixmap_nearest | pixmap_average | pixmap_bicubic

text \<open>
  \<^verbatim>\<open>thumbnail_create\<close>. The resampler \<^verbatim>\<open>pixmap_scale\<close> belongs to the pixel-resampling
  collaborator and is not among the sources: it is the parameter \<open>resample\<close>, called
  with the algorithm, the world, the source and destination pixel maps, the offsets, the
  scale and the alpha flag, and returning the world with the destination filled.
\<close>

definition thumbnail_create ::
  "(pixmap_scale \<Rightarrow> world \<Rightarrow> pixmap \<Rightarrow> pixmap \<Rightarrow> ssize_t \<Rightarrow> ssize_t \<Rightarrow> fp \<Rightarrow> bool \<Rightarrow> world) \<Rightarrow>
   world \<Rightarrow> pixmap \<Rightarrow> image \<Rightarrow> thumbnail_params \<Rightarrow> (world \<times> pixmap \<times> bool) option" where
  "thumbnail_create resample w thumb img params =
     (case frames img of
        [] \<Rightarrow> None
      | full # others \<Rightarrow>
          (let scaler = (if antialias params
                         then (if fp_less (Finite 1) (scale params) then pixmap_bicubic
                               else pixmap_average)
                         else pixmap_nearest)
           in case pixmap_create w thumb (thumb_width params) (thumb_height params) of
                (w1, thumb1, created) \<Rightarrow>
                  if \<not> created then Some (w1, thumb1, False)
                  else Some (resample scaler w1 full thumb1 (offset_x params) (offset_y params)
                               (scale params) (alpha img),
                             thumb1, True)))"

section \<open>Example states\<close>

text \<open>
  A pixel map of two pixels, the first of them half transparent, and a process with a
  source file but neither environment variable.
\<close>

definition example_pixmap :: pixmap where
  "example_pixmap = \<lparr>width = 2, height = 1, data = 1\<rparr>"

definition world_no_env :: world where
  "world_no_env =
     \<lparr>env_xdg_cache_home = None, env_home = None, cache_dir = None,
      fs = [''/a.png'' \<mapsto> File 5 [1, 2, 3]], now = 10, free_space = 1000,
      open_files = 0, max_open = 16,
      heap = [Some [0x80112233, 0xFF445566]], mem_free = 100\<rparr>"

text \<open>
  A process with the home directory \<^verbatim>\<open>/h\<close>, a source file and a cache entry for
  it: a pixel map of 2 by 1 pixels saved with the parameter bytes \<open>7, 8, 9\<close>. The
  second state is the first after a successful \<^verbatim>\<open>thumbnail_load\<close>.
\<close>

definition world_cached :: world where
  "world_cached =
     \<lparr>env_xdg_cache_home = None, env_home = Some ''/h'', cache_dir = None,
      fs = [''/a.png'' \<mapsto> File 5 [1, 2, 3],
            ''/h/.swayimg/a.png'' \<mapsto>
              File 10 [0x50, 0x36, 0x0A, 0x32, 0x20, 0x31, 0x0A, 0x32, 0x35, 0x35, 0x0A,
                       0x23, 7, 8, 9, 0x0A, 0x11, 0x22, 0x33, 0x44, 0x55, 0x66]],
      now = 20, free_space = 1000, open_files = 0, max_open = 16,
      heap = [Some [0x80112233, 0xFF445566]], mem_free = 100\<rparr>"

definition world_loaded :: world where
  "world_loaded =
     world_cached\<lparr>env_home := Some ''/h/.swayimg'', cache_dir := Some ''/h/.swayimg'',
       heap := [Some [0x80112233, 0xFF445566], Some [0xFF112233, 0xFF445566]],
       mem_free := 98\<rparr>"

text \<open>
  A pixel map not yet filled, and a process whose cache file starts with the magic
  \<^verbatim>\<open>P5\<close> and the dimensions \<open>7\<close> and \<open>9\<close>.
\<close>

definition blank_pixmap :: pixmap where
  "blank_pixmap = \<lparr>width = 0, height = 0, data = 0\<rparr>"

definition world_bad_magic :: world where
  "world_bad_magic =
     \<lparr>env_xdg_cache_home = None, env_home = Some ''/h'', cache_dir = None,
      fs = [''/a.png'' \<mapsto> File 5 [1, 2, 3],
            ''/h/.swayimg/a.png'' \<mapsto>
              File 10 [0x50, 0x35, 0x0A, 0x37, 0x20, 0x39, 0x0A, 0x32, 0x35, 0x35, 0x0A]],
      now = 20, free_space = 1000, open_files = 0, max_open = 16,
      heap = [], mem_free = 100\<rparr>"

text \<open>
  A process with the home directory \<^verbatim>\<open>/h\<close> and a source file but no cache yet, and
  the same process after \<^verbatim>\<open>thumbnail_save\<close> of the example pixel map with the
  parameter bytes \<open>7, 8, 9\<close>.
\<close>

definition world_home :: world where
  "world_home =
     \<lparr>env_xdg_cache_home = None, env_home = Some ''/h'', cache_dir = None,
      fs = [''/a.png'' \<mapsto> File 5 [1, 2, 3]],
      now = 20, free_space = 1000, open_files = 0, max_open = 16,
      heap = [Some [0x80112233, 0xFF445566]], mem_free = 100\<rparr>"

definition world_saved :: world where
  "world_saved =
     world_home\<lparr>env_home := Some ''/h/.swayimg'', cache_dir := Some ''/h/.swayimg'',
       fs := [''/a.png'' \<mapsto> File 5 [1, 2, 3], ''/h'' \<mapsto> Dir 20, ''/h/.swayimg'' \<mapsto> Dir 20,
              ''/h/.swayimg/a.png'' \<mapsto>
                File 20 [0x50, 0x36, 0x0A, 0x32, 0x20, 0x31, 0x0A, 0x32, 0x35, 0x35, 0x0A,
                         0x23, 7, 8, 9, 0x0A, 0x11, 0x22, 0x33, 0x44, 0x55, 0x66]],
       free_space := 978\<rparr>"

text \<open>
  A process where a regular file stands at \<^verbatim>\<open>/h\<close>, where the cache directory would
  have to be made, and a pixel map of \<open>2^32\<close> pixels.
\<close>

definition world_blocked :: world where
  "world_blocked = world_home\<lparr>fs := [''/a.png'' \<mapsto> File 5 [1, 2, 3], ''/h'' \<mapsto> File 1 []]\<rparr>"

definition huge_pixmap :: pixmap where
  "huge_pixmap = \<lparr>width = 65536, height = 65536, data = 1\<rparr>"

text \<open>
  A process whose cache file for \<^verbatim>\<open>/a.png\<close> has a valid header for a pixel map of
  two by one pixels and the parameter bytes \<open>7, 8, 9\<close>, but only three of the six
  payload bytes.
\<close>

definition world_short_payload :: world where
  "world_short_payload =
     \<lparr>env_xdg_cache_home = None, env_home = Some ''/h'', cache_dir = None,
      fs = [''/a.png'' \<mapsto> File 5 [1, 2, 3],
            ''/h/.swayimg/a.png'' \<mapsto>
              File 10 [0x50, 0x36, 0x0A, 0x32, 0x20, 0x31, 0x0A, 0x32, 0x35, 0x35, 0x0A,
                       0x23, 7, 8, 9, 0x0A, 0x11, 0x22, 0x33]],
      now = 20, free_space = 1000, open_files = 0, max_open = 16,
      heap = [], mem_free = 100\<rparr>"

text \<open>
  The process after \<^verbatim>\<open>thumbnail_save\<close> of the example pixel map on a file system with
  room for five bytes: the cache file holds the first five bytes of the entry.
\<close>

definition world_truncated :: world where
  "world_truncated =
     world_home\<lparr>env_home := Some ''/h/.swayimg'', cache_dir := Some ''/h/.swayimg'',
       fs := [''/a.png'' \<mapsto> File 5 [1, 2, 3], ''/h'' \<mapsto> Dir 20, ''/h/.swayimg'' \<mapsto> Dir 20,
              ''/h/.swayimg/a.png'' \<mapsto> File 20 [0x50, 0x36, 0x0A, 0x32, 0x20]],
       free_space := 0\<rparr>"

text \<open>
  A resampler that fills the destination with the number of the algorithm it was called
  with, an image whose first frame is the example pixel map, and parameters for a
  thumbnail of one pixel.
\<close>

definition marking_resampler ::
  "pixmap_scale \<Rightarrow> world \<Rightarrow> pixmap \<Rightarrow> pixmap \<Rightarrow> ssize_t \<Rightarrow> ssize_t \<Rightarrow> fp \<Rightarrow> bool \<Rightarrow> world" where
  "marking_resampler scaler w full thumb x y s a =
     store_pixels w thumb
       (replicate (unat (width thumb) * unat (height thumb))
          (case scaler of pixmap_nearest \<Rightarrow> 1 | pixmap_average \<Rightarrow> 2 | pixmap_bicubic \<Rightarrow> 3))"

definition example_image :: image where
  "example_image = \<lparr>frames = [example_pixmap], alpha = True\<rparr>"

definition example_params :: "bool \<Rightarrow> fp \<Rightarrow> thumbnail_params" where
  "example_params aa s =
     \<lparr>thumb_width = 1, thumb_height = 1, offset_x = 0, offset_y = 0, fill = False,
      antialias = aa, scale = s\<rparr>"

text \<open>
  Three images: one of 4000 by 2000 pixels, one of 19 by 19 pixels, and one of
  \<open>2^32\<close> by 1 pixels.
\<close>

definition photo :: image where
  "photo = \<lparr>frames = [\<lparr>width = 4000, height = 2000, data = 1\<rparr>], alpha = False\<rparr>"

definition tile :: image where
  "tile = \<lparr>frames = [\<lparr>width = 19, height = 19, data = 1\<rparr>], alpha = False\<rparr>"

definition strip :: image where
  "strip = \<lparr>frames = [\<lparr>width = 4294967296, height = 1, data = 1\<rparr>], alpha = False\<rparr>"

section \<open>Notions used in the statements\<close>

text \<open>The root \<^verbatim>\<open>get_thumb_path\<close> resolves, and the world it leaves.\<close>

definition cache_root :: "world \<Rightarrow> string option" where
  "cache_root w =
     (case cache_dir w of
        Some d \<Rightarrow> Some d
      | None \<Rightarrow>
          (case env_xdg_cache_home w of
             Some x \<Rightarrow> Some (x @ ''/swayimg'')
           | None \<Rightarrow> map_option (\<lambda>h. h @ ''/.swayimg'') (env_home w)))"

text \<open>
  The bytes \<^verbatim>\<open>thumbnail_save\<close> writes for a pixel map of the given dimensions: the
  header, the marker \<^verbatim>\<open>#\<close>, the parameters, a line break, and three bytes for
  every pixel.
\<close>

definition entry_bytes :: "size_t \<Rightarrow> size_t \<Rightarrow> byte list \<Rightarrow> argb_t list \<Rightarrow> byte list" where
  "entry_bytes wd ht params pxs =
     header_bytes wd ht @ [0x23] @ params @ [0x0A] @ concat (map pixel_rgb pxs)"

text \<open>A pixel with its alpha byte replaced by \<open>0xff\<close>.\<close>

definition opaque :: "argb_t \<Rightarrow> argb_t" where
  "opaque px = px OR 0xFF000000"

text \<open>
  What \<^verbatim>\<open>thumbnail_load\<close> finds after the header, in the stream \<open>fp1\<close> left by
  \<^verbatim>\<open>fscanf\<close>: the content of \<^verbatim>\<open>saved_params\<close> after the three calls of
  \<^verbatim>\<open>fread\<close>, and the bytes that follow, where the pixels are read from.
\<close>

definition saved_of :: "byte list \<Rightarrow> byte list \<Rightarrow> byte list \<Rightarrow> byte list" where
  "saved_of params uninit fp1 =
     take (length params)
       (take (length params) (drop 1 fp1) @
        drop (length (take (length params) (drop 1 fp1))) uninit)"

definition payload_of :: "byte list \<Rightarrow> byte list \<Rightarrow> byte list" where
  "payload_of params fp1 = drop 1 (drop (length params) (drop 1 fp1))"

text \<open>The bytes a stream opened for reading delivers.\<close>

fun stream_of :: "node \<Rightarrow> byte list" where
  "stream_of (Dir t) = []"
| "stream_of (File t c) = c"

text \<open>
  A change of the environment, used to state what the freshness test does not look at:
  the entry at \<open>p\<close> gets the status-change time \<open>t\<close>.
\<close>

fun restamp :: "int \<Rightarrow> node \<Rightarrow> node" where
  "restamp t (Dir t0) = Dir t"
| "restamp t (File t0 c) = File t c"

definition set_ctime :: "world \<Rightarrow> path \<Rightarrow> int \<Rightarrow> world" where
  "set_ctime w p t = w\<lparr>fs := (fs w)(p := map_option (restamp t) (fs w p))\<rparr>"

section \<open>Lemmas\<close>

subsection \<open>Printing and scanning the header\<close>

lemma unat_digit: "k < 10 \<Longrightarrow> unat (48 + of_nat k :: byte) = 48 + k"
  by (simp add: unat_word_ariths unat_of_nat)

lemma isdigit_digit: "k < 10 \<Longrightarrow> isdigit (48 + of_nat k)"
  by (simp add: isdigit_def word_le_nat_alt unat_digit)

lemma isdigit_not_space: "isdigit c \<Longrightarrow> \<not> isspace c"
  by (auto simp: isdigit_def isspace_def word_le_nat_alt)

lemma isdigit_not_sign: "isdigit c \<Longrightarrow> c \<noteq> 0x2D \<and> c \<noteq> 0x2B"
  by (auto simp: isdigit_def word_le_nat_alt)

lemma show_nat_digits: "c \<in> set (show_nat n) \<Longrightarrow> isdigit c"
proof (induction n arbitrary: c rule: show_nat.induct)
  case (1 n)
  show ?case
  proof (cases "n < 10")
    case True
    with "1.prems" show ?thesis
      by (simp add: show_nat.simps [of n] isdigit_digit)
  next
    case False
    with "1.prems" "1.IH" show ?thesis
      by (auto simp: show_nat.simps [of n] isdigit_digit)
  qed
qed

lemma show_nat_nonempty: "show_nat n \<noteq> []"
  by (subst show_nat.simps) simp

lemma digits_value_snoc: "digits_value (ds @ [d]) = 10 * digits_value ds + (unat d - 48)"
  by (simp add: digits_value_def)

lemma digits_value_show_nat: "digits_value (show_nat n) = n"
proof (induction n rule: show_nat.induct)
  case (1 n)
  show ?case
  proof (cases "n < 10")
    case True
    then show ?thesis
      by (simp add: show_nat.simps [of n] digits_value_def unat_digit)
  next
    case False
    with "1.IH" show ?thesis
      by (simp add: show_nat.simps [of n] digits_value_snoc unat_digit)
  qed
qed

lemma hd_show_nat: "isdigit (hd (show_nat n))"
  using show_nat_digits [of "hd (show_nat n)" n] show_nat_nonempty [of n] by simp

lemma dropWhile_isspace_show_nat:
  "dropWhile isspace (show_nat n @ rest) = show_nat n @ rest"
  using hd_show_nat [of n] show_nat_nonempty [of n]
  by (cases "show_nat n") (auto simp: isdigit_not_space)

lemma takeWhile_isdigit_show_nat:
  "rest = [] \<or> \<not> isdigit (hd rest) \<Longrightarrow> takeWhile isdigit (show_nat n @ rest) = show_nat n"
  by (cases rest) (auto simp: takeWhile_append2 show_nat_digits)

lemma scan_zu_show_nat:
  assumes "n < 2 ^ 64" and "rest = [] \<or> \<not> isdigit (hd rest)"
  shows "scan_zu (show_nat n @ rest) = Some (of_nat n, rest)"
proof -
  obtain d ds where sn: "show_nat n = d # ds"
    using show_nat_nonempty [of n] by (cases "show_nat n") auto
  have d: "isdigit d"
    using hd_show_nat [of n] sn by simp
  have "takeWhile isdigit (show_nat n @ rest) = show_nat n"
    using assms(2) by (rule takeWhile_isdigit_show_nat)
  then have tw: "takeWhile isdigit (d # ds @ rest) = d # ds"
    using sn by simp
  have dv: "digits_value (d # ds) = n"
    using digits_value_show_nat [of n] sn by simp
  show ?thesis
    using assms(1) d isdigit_not_space [OF d] isdigit_not_sign [OF d] tw dv
    unfolding scan_zu_def sn Let_def
    by (simp del: takeWhile.simps)
qed

lemma isspace_simps:
  "isspace 0x0A" "isspace 0x20" "\<not> isspace 0x50" "\<not> isspace 0x36" "\<not> isspace 0x23"
  "\<not> isspace 0x32"
  by (simp_all add: isspace_def)

lemma not_isdigit_simps: "\<not> isdigit 0x20" "\<not> isdigit 0x0A"
  by (simp_all add: isdigit_def)

lemma scan_s2_P6:
  "scan_s2 (0x50 # 0x36 # 0x0A # rest) = Some ([0x50, 0x36], 0x0A # rest)"
  by (simp add: scan_s2_def isspace_simps)

lemma scan_zu_show_nat_word:
  "rest = [] \<or> \<not> isdigit (hd rest) \<Longrightarrow>
   scan_zu (show_nat (unat (x :: size_t)) @ rest) = Some (x, rest)"
  using scan_zu_show_nat [of "unat x" rest] unsigned_less [of x]
  by simp

lemma fscanf_header_bytes:
  "fscanf_header (header_bytes wd ht @ 0x23 # rest) thumb =
     (3, [0x50, 0x36], thumb\<lparr>width := wd, height := ht\<rparr>, 0x23 # rest)"
proof -
  let ?t = "[0x0A, 0x32, 0x35, 0x35, 0x0A, 0x23] @ rest"
  let ?s2 = "0x20 # show_nat (unat ht) @ ?t"
  have a: "scan_zu (show_nat (unat wd) @ ?s2) = Some (wd, ?s2)"
    by (rule scan_zu_show_nat_word) (simp add: not_isdigit_simps)
  have b: "scan_zu (show_nat (unat ht) @ ?t) = Some (ht, ?t)"
    by (rule scan_zu_show_nat_word) (simp add: not_isdigit_simps)
  show ?thesis
    using a b
    by (simp add: fscanf_header_def header_bytes_def scan_s2_P6 isspace_simps
        dropWhile_isspace_show_nat)
qed

subsection \<open>Writing\<close>

lemma fwrite_fwrite: "fwrite (fwrite w fp xs) fp ys = fwrite w fp (xs @ ys)"
  by (cases "fs w fp"; simp add: fwrite_def split: node.splits)

lemma fwrite_fields [simp]:
  "heap (fwrite w fp bs) = heap w" "mem_free (fwrite w fp bs) = mem_free w"
  "open_files (fwrite w fp bs) = open_files w" "max_open (fwrite w fp bs) = max_open w"
  "now (fwrite w fp bs) = now w" "cache_dir (fwrite w fp bs) = cache_dir w"
  "env_xdg_cache_home (fwrite w fp bs) = env_xdg_cache_home w"
  "env_home (fwrite w fp bs) = env_home w"
  by (simp_all add: fwrite_def split: option.splits node.splits)

lemma fwrite_other: "q \<noteq> fp \<Longrightarrow> fs (fwrite w fp bs) q = fs w q"
  by (simp add: fwrite_def split: option.splits node.splits)

lemma fwrite_file:
  "fs w fp = Some (File t c) \<Longrightarrow>
   fs (fwrite w fp bs) fp = Some (File (now w) (c @ take (free_space w) bs))"
  by (simp add: fwrite_def)

lemma unat_ucast_32_64: "unat (ucast (i :: 32 word) :: size_t) = unat i"
proof -
  have "unat i < 2 ^ 32"
    using unsigned_less [of i] by simp
  then have "unat i < 2 ^ 64"
    by (rule less_le_trans) simp
  then show ?thesis
    by (simp add: unsigned_ucast_eq take_bit_nat_eq_self_iff)
qed

lemma ucast_less_iff: "(ucast (i :: 32 word) :: size_t) < n \<longleftrightarrow> unat i < unat n"
  by (simp add: word_less_nat_alt unat_ucast_32_64)

lemma unat_succ_32: "unat (i :: 32 word) < k \<Longrightarrow> k < 2 ^ 32 \<Longrightarrow> unat (i + 1) = unat i + 1"
  by (simp add: unat_word_ariths)


lemma save_pixels_run:
  assumes "unat n < 2 ^ 32" and "unat n \<le> length buf" and "unat i \<le> unat n"
  shows "save_pixels (fwrite w fp xs) fp n buf i =
         Some (fwrite w fp (xs @ concat (map pixel_rgb (drop (unat i) (take (unat n) buf)))))"
  using assms(3)
proof (induction "unat n - unat i" arbitrary: i xs)
  case 0
  then have "\<not> ucast i < n"
    by (simp add: ucast_less_iff)
  moreover from 0 have "drop (unat i) (take (unat n) buf) = []"
    by simp
  ultimately show ?case
    by (subst save_pixels.simps) simp
next
  case (Suc k)
  then have lt: "unat i < unat n"
    by simp
  then have s: "unat (i + 1) = unat i + 1"
    using assms(1) by (rule unat_succ_32)
  have d: "drop (unat i) (take (unat n) buf) = buf ! unat i # drop (unat i + 1) (take (unat n) buf)"
    using lt assms(2) by (simp add: Cons_nth_drop_Suc [symmetric])
  have "save_pixels (fwrite w fp xs) fp n buf i =
        save_pixels (fwrite w fp (xs @ pixel_rgb (buf ! unat i))) fp n buf (i + 1)"
    using lt assms(2) by (subst save_pixels.simps) (simp add: ucast_less_iff fwrite_fwrite)
  also have "\<dots> = Some (fwrite w fp ((xs @ pixel_rgb (buf ! unat i)) @
      concat (map pixel_rgb (drop (unat (i + 1)) (take (unat n) buf)))))"
    using Suc.hyps(2) lt s by (intro Suc.hyps(1)) simp_all
  finally show ?case
    using d s by simp
qed

lemma save_pixels_Some:
  assumes "save_pixels w fp n buf i = Some w'"
  shows "unat n < 2 ^ 32 \<and> (unat i < unat n \<longrightarrow> unat n \<le> length buf)"
  using assms
proof (induction rule: save_pixels.raw_induct)
  case (1 sp w fp n buf i w')
  note ih = 1(1) and body = 1(2) and orig = 1(3)
  show ?case
  proof (cases "ucast i < n")
    case False
    then have "unat n \<le> unat i"
      by (simp add: ucast_less_iff)
    moreover have "unat i < 2 ^ 32"
      using unsigned_less [of i] by simp
    ultimately show ?thesis
      by simp
  next
    case True
    then have lt: "unat i < unat n"
      by (simp add: ucast_less_iff)
    from True body have inb: "unat i < length buf"
      by (simp split: if_splits)
    with True body have "sp (fwrite w fp (pixel_rgb (buf ! unat i))) fp n buf (i + 1) = Some w'"
      by simp
    moreover from True inb orig
    have "save_pixels (fwrite w fp (pixel_rgb (buf ! unat i))) fp n buf (i + 1) = Some w'"
      by (subst (asm) save_pixels.simps) simp
    ultimately have r: "unat n < 2 ^ 32 \<and> (unat (i + 1) < unat n \<longrightarrow> unat n \<le> length buf)"
      by (rule ih)
    then have s: "unat (i + 1) = unat i + 1"
      using lt by (intro unat_succ_32 [of i "unat n"]) simp_all
    show ?thesis
      using r s lt inb by (cases "unat i + 1 < unat n") auto
  qed
qed (rule assms)

subsection \<open>The path and the directories\<close>

lemma get_thumb_path_fields [simp]:
  "fs (fst (get_thumb_path w s)) = fs w"
  "heap (fst (get_thumb_path w s)) = heap w"
  "mem_free (fst (get_thumb_path w s)) = mem_free w"
  "open_files (fst (get_thumb_path w s)) = open_files w"
  "max_open (fst (get_thumb_path w s)) = max_open w"
  "now (fst (get_thumb_path w s)) = now w"
  "free_space (fst (get_thumb_path w s)) = free_space w"
  by (cases "cache_dir w"; cases "env_xdg_cache_home w"; cases "env_home w";
      simp add: get_thumb_path_def Let_def)+

lemma get_thumb_path_result:
  "snd (get_thumb_path w s) =
     (case cache_root w of
        None \<Rightarrow> None
      | Some d \<Rightarrow> if length (d @ s) < PATH_MAX then Some (d @ s) else None)"
  by (cases "cache_dir w"; cases "env_xdg_cache_home w"; cases "env_home w";
      simp add: get_thumb_path_def cache_root_def Let_def)

lemma get_thumb_path_cache_dir:
  "cache_dir (fst (get_thumb_path w s)) = cache_root w"
  by (cases "cache_dir w"; cases "env_xdg_cache_home w"; cases "env_home w";
      simp add: get_thumb_path_def cache_root_def Let_def)

lemma cache_root_resolved: "cache_dir w = Some d \<Longrightarrow> cache_root w = Some d"
  by (simp add: cache_root_def)

lemma get_thumb_path_resolved:
  "cache_dir w \<noteq> None \<Longrightarrow> fst (get_thumb_path w s) = w"
  by (auto simp: get_thumb_path_def Let_def)

lemma get_thumb_path_again:
  "get_thumb_path w s = (w1, Some p) \<Longrightarrow> get_thumb_path w1 s = (w1, Some p)"
proof -
  assume a: "get_thumb_path w s = (w1, Some p)"
  then have w1: "w1 = fst (get_thumb_path w s)" and p: "snd (get_thumb_path w s) = Some p"
    by simp_all
  from p obtain d where d: "cache_root w = Some d"
    by (auto simp: get_thumb_path_result split: option.splits)
  then have c: "cache_dir w1 = Some d"
    by (simp add: w1 get_thumb_path_cache_dir)
  then have "fst (get_thumb_path w1 s) = w1"
    by (simp add: get_thumb_path_resolved)
  moreover have "snd (get_thumb_path w1 s) = Some p"
    using p d c by (simp add: get_thumb_path_result cache_root_resolved)
  ultimately show ?thesis
    by (simp add: prod_eq_iff)
qed

lemma mkdir_fields [simp]:
  "heap (fst (mkdir w p)) = heap w"
  "mem_free (fst (mkdir w p)) = mem_free w"
  "open_files (fst (mkdir w p)) = open_files w"
  "max_open (fst (mkdir w p)) = max_open w"
  "now (fst (mkdir w p)) = now w"
  "free_space (fst (mkdir w p)) = free_space w"
  "cache_dir (fst (mkdir w p)) = cache_dir w"
  "env_xdg_cache_home (fst (mkdir w p)) = env_xdg_cache_home w"
  "env_home (fst (mkdir w p)) = env_home w"
  by (simp_all add: mkdir_def)

lemma make_directories_loop_fields:
  "heap (fst (make_directories_loop w pre rest)) = heap w \<and>
   mem_free (fst (make_directories_loop w pre rest)) = mem_free w \<and>
   open_files (fst (make_directories_loop w pre rest)) = open_files w \<and>
   max_open (fst (make_directories_loop w pre rest)) = max_open w \<and>
   now (fst (make_directories_loop w pre rest)) = now w \<and>
   free_space (fst (make_directories_loop w pre rest)) = free_space w \<and>
   cache_dir (fst (make_directories_loop w pre rest)) = cache_dir w \<and>
   env_xdg_cache_home (fst (make_directories_loop w pre rest)) = env_xdg_cache_home w \<and>
   env_home (fst (make_directories_loop w pre rest)) = env_home w"
proof (induction rest arbitrary: w pre)
  case Nil
  show ?case by simp
next
  case (Cons c rest)
  show ?case
  proof (cases "c = CHR ''/''")
    case False
    then show ?thesis
      using Cons.IH [of w "pre @ [c]"] by simp
  next
    case True
    obtain w1 e where m: "mkdir w pre = (w1, e)"
      by (cases "mkdir w pre")
    then have w1: "w1 = fst (mkdir w pre)"
      by simp
    have f: "heap w1 = heap w" "mem_free w1 = mem_free w" "open_files w1 = open_files w"
      "max_open w1 = max_open w" "now w1 = now w" "free_space w1 = free_space w"
      "cache_dir w1 = cache_dir w" "env_xdg_cache_home w1 = env_xdg_cache_home w"
      "env_home w1 = env_home w"
      by (simp_all add: w1)
    show ?thesis
    proof (cases "e = None \<or> e = Some EEXIST")
      case True
      with \<open>c = CHR ''/''\<close> m
      have "make_directories_loop w pre (c # rest) = make_directories_loop w1 (pre @ [c]) rest"
        by auto
      then show ?thesis
        using Cons.IH [of w1 "pre @ [c]"] f by simp
    next
      case False
      with \<open>c = CHR ''/''\<close> m
      have "make_directories_loop w pre (c # rest) = (w1, False)"
        by (cases e) auto
      then show ?thesis
        using f by simp
    qed
  qed
qed

lemma make_directories_fields [simp]:
  "heap (fst (make_directories w p)) = heap w"
  "mem_free (fst (make_directories w p)) = mem_free w"
  "open_files (fst (make_directories w p)) = open_files w"
  "max_open (fst (make_directories w p)) = max_open w"
  "now (fst (make_directories w p)) = now w"
  "free_space (fst (make_directories w p)) = free_space w"
  "cache_dir (fst (make_directories w p)) = cache_dir w"
  "env_xdg_cache_home (fst (make_directories w p)) = env_xdg_cache_home w"
  "env_home (fst (make_directories w p)) = env_home w"
  using make_directories_loop_fields [of w "[hd p]" "tl p"]
  by (cases p; simp add: make_directories_def)+

lemma fopen_wb_Some:
  assumes "fopen_wb w p = (w', Some fp)"
  shows "fp = p" and "fs w' p = Some (File (now w) [])" and "free_space w \<le> free_space w'"
    and "open_files w' = open_files w + 1" and "open_files w < max_open w"
    and "heap w' = heap w" and "mem_free w' = mem_free w" and "now w' = now w"
    and "max_open w' = max_open w" and "cache_dir w' = cache_dir w"
    and "q \<noteq> p \<Longrightarrow> fs w' q = fs w q"
  using assms
  by (auto simp: fopen_wb_def split: if_splits option.splits node.splits)

lemma fopen_wb_None:
  "fopen_wb w p = (w', None) \<Longrightarrow> w' = w"
  by (auto simp: fopen_wb_def split: if_splits option.splits node.splits)

subsection \<open>Reading\<close>

lemma ff_mask: "(0xff :: argb_t) = mask 8" "(0xFF000000 :: argb_t) = push_bit 24 (mask 8)"
  "(0xff :: byte) = mask 8"
  by (simp_all add: mask_eq_exp_minus_1)

lemma ARGB_pixel_rgb:
  "ARGB 0xff (ucast (drop_bit 16 px AND 0xff)) (ucast (drop_bit 8 px AND 0xff))
     (ucast (drop_bit 0 px AND 0xff)) = opaque px"
  unfolding ARGB_def opaque_def ff_mask
  apply (rule bit_eqI)
  subgoal for n
    by (cases "n < 8"; cases "n < 16"; cases "n < 24") (auto simp: bit_simps)
  done

lemma pixel_rgb_opaque:
  "pixel_rgb px = [r, g, b] \<Longrightarrow> ARGB 0xff r g b = opaque px"
  using ARGB_pixel_rgb [of px] by (simp add: pixel_rgb_def)

lemma pixel_rgb_cases:
  obtains r g b where "pixel_rgb px = [r, g, b]"
  by (simp add: pixel_rgb_def)

lemma load_pixels_done:
  "\<not> ucast i < n \<Longrightarrow> load_pixels n i s buf = Some (True, buf, s)"
  by (cases "(n, i, s, buf)" rule: load_pixels.cases) auto

lemma load_pixels_short:
  "ucast i < n \<Longrightarrow> length s < 3 \<Longrightarrow> load_pixels n i s buf = Some (False, buf, [])"
  by (cases "(n, i, s, buf)" rule: load_pixels.cases) auto

lemma load_pixels_total:
  "unat n \<le> length buf \<Longrightarrow>
   \<exists>r buf' s'. load_pixels n i s buf = Some (r, buf', s') \<and> length buf' = length buf"
proof (induction n i s buf rule: load_pixels.induct)
  case (1 n i r g b s buf)
  show ?case
  proof (cases "ucast i < n")
    case True
    then have "unat i < length buf"
      using "1.prems" by (simp add: ucast_less_iff)
    with True "1.IH" "1.prems" show ?thesis
      by simp
  next
    case False
    then show ?thesis
      by auto
  qed
qed auto

lemma load_pixels_payload:
  assumes "unat n < 2 ^ 32" and "unat n \<le> length buf" and "unat i + length pxs = unat n"
  shows "load_pixels n i (concat (map pixel_rgb pxs)) buf =
         Some (True, take (unat i) buf @ map opaque pxs @ drop (unat n) buf, [])"
  using assms(2,3)
proof (induction pxs arbitrary: i buf)
  case Nil
  then have "\<not> ucast i < n"
    by (simp add: ucast_less_iff)
  then show ?case
    using Nil by (simp add: load_pixels_done)
next
  case (Cons px pxs)
  obtain r g b where rgb: "pixel_rgb px = [r, g, b]"
    by (rule pixel_rgb_cases)
  from Cons.prems have lt: "unat i < unat n"
    by simp
  then have s: "unat (i + 1) = unat i + 1"
    using assms(1) by (rule unat_succ_32)
  have inb: "unat i < length buf"
    using lt Cons.prems by simp
  have "load_pixels n i (concat (map pixel_rgb (px # pxs))) buf =
        load_pixels n (i + 1) (concat (map pixel_rgb pxs)) (buf[unat i := opaque px])"
    using lt inb rgb by (simp add: ucast_less_iff pixel_rgb_opaque)
  also have "\<dots> = Some (True, take (unat (i + 1)) (buf[unat i := opaque px]) @ map opaque pxs @
                          drop (unat n) (buf[unat i := opaque px]), [])"
    using Cons.prems s by (intro Cons.IH) simp_all
  also have "take (unat (i + 1)) (buf[unat i := opaque px]) = take (unat i) buf @ [opaque px]"
    using inb s by (simp add: take_Suc_conv_app_nth)
  also have "drop (unat n) (buf[unat i := opaque px]) = drop (unat n) buf"
    using lt by simp
  finally show ?case
    by simp
qed

lemma unat_mult_le: "unat (a * b :: size_t) \<le> unat a * unat b"
  by (simp add: unat_word_ariths)

lemma buffer_at_append_new:
  "buffer_at (w\<lparr>heap := heap w @ [Some b]\<rparr>) (length (heap w) + 1) = Some b"
  by (simp add: buffer_at_def)

lemma pixmap_create_True:
  assumes "pixmap_create w pm wd ht = (w', pm', True)"
  shows "pm' = \<lparr>width = wd, height = ht, data = length (heap w) + 1\<rparr>"
    and "heap w' = heap w @ [Some (replicate (unat wd * unat ht) 0)]"
    and "unat wd * unat ht \<le> mem_free w"
    and "mem_free w' = mem_free w - unat wd * unat ht"
    and "pixels_of w' pm' = replicate (unat wd * unat ht) 0"
    and "fs w' = fs w" and "open_files w' = open_files w" and "max_open w' = max_open w"
    and "now w' = now w" and "free_space w' = free_space w" and "cache_dir w' = cache_dir w"
  using assms
  by (auto simp: pixmap_create_def Let_def pixels_of_def buffer_at_def split: if_splits)

lemma pixmap_create_False:
  "pixmap_create w pm wd ht = (w', pm', False) \<Longrightarrow> w' = w \<and> pm' = pm"
  by (auto simp: pixmap_create_def Let_def split: if_splits)

lemma pixmap_create_iff:
  "snd (snd (pixmap_create w pm wd ht)) \<longleftrightarrow> unat wd * unat ht \<le> mem_free w"
  by (auto simp: pixmap_create_def Let_def)

lemma fclose_fields [simp]:
  "fs (fclose w) = fs w" "heap (fclose w) = heap w" "mem_free (fclose w) = mem_free w"
  "open_files (fclose w) = open_files w - 1" "max_open (fclose w) = max_open w"
  "now (fclose w) = now w" "free_space (fclose w) = free_space w"
  "cache_dir (fclose w) = cache_dir w" "buffer_at (fclose w) a = buffer_at w a"
  by (simp_all add: fclose_def buffer_at_def)

lemma release_after_create:
  assumes c: "pixmap_create w pm wd ht = (w4, pm2, True)"
    and l: "length buf = unat wd * unat ht"
  defines "w' \<equiv> pixmap_free (store_pixels w4 pm2 buf) pm2"
  shows "mem_free w' = mem_free w" and "buffer_at w' a = buffer_at w a" and "fs w' = fs w"
    and "open_files w' = open_files w" and "max_open w' = max_open w" and "now w' = now w"
    and "free_space w' = free_space w" and "cache_dir w' = cache_dir w"
proof -
  note f = pixmap_create_True [OF c]
  have d: "data pm2 = length (heap w) + 1"
    by (simp add: f(1))
  have h: "heap (store_pixels w4 pm2 buf) = heap w @ [Some buf]"
    by (simp add: store_pixels_def d f(2))
  have b: "buffer_at (store_pixels w4 pm2 buf) (data pm2) = Some buf"
    by (simp add: buffer_at_def h d)
  have w': "w' = (store_pixels w4 pm2 buf)\<lparr>heap := heap w @ [None],
                  mem_free := mem_free w4 + length buf\<rparr>"
    unfolding w'_def pixmap_free_def b by (simp add: h d) (simp add: store_pixels_def)
  show "mem_free w' = mem_free w"
    using f(3,4) l by (simp add: w' store_pixels_def)
  show "buffer_at w' a = buffer_at w a"
    by (cases "a \<le> length (heap w)") (auto simp: w' buffer_at_def nth_append)
  show "fs w' = fs w" "open_files w' = open_files w" "max_open w' = max_open w"
    "now w' = now w" "free_space w' = free_space w" "cache_dir w' = cache_dir w"
    by (simp_all add: w' store_pixels_def f)
qed

lemma load_stream_unfold:
  assumes "fscanf_header fp thumb = (cnt, header, thumb1, fp1)"
  shows "load_stream w thumb params uninit fp =
     (if cnt \<noteq> 3 \<or> header \<noteq> [0x50, 0x36] \<or> saved_of params uninit fp1 \<noteq> params
      then Some (fclose w, thumb1, False)
      else (case pixmap_create w thumb1 (width thumb1) (height thumb1) of
         (w4, thumb2, created) \<Rightarrow>
           if \<not> created then Some (fclose w4, thumb2, False)
           else (case load_pixels (width thumb2 * height thumb2) 0 (payload_of params fp1)
                        (pixels_of w4 thumb2) of
              None \<Rightarrow> None
            | Some (all_read, buf, fp5) \<Rightarrow>
                if \<not> all_read
                then Some (fclose (pixmap_free (store_pixels w4 thumb2 buf) thumb2), thumb2, False)
                else Some (fclose (store_pixels w4 thumb2 buf), thumb2, True))))"
  unfolding load_stream_def Let_def saved_of_def payload_of_def assms
  by simp

text \<open>The three ways the second part of \<^verbatim>\<open>thumbnail_load\<close> can end.\<close>

lemma load_stream_cases:
  assumes sc: "fscanf_header fp thumb = (cnt, header, thumb1, fp1)"
  obtains
    (rejected) "cnt \<noteq> 3 \<or> header \<noteq> [0x50, 0x36] \<or> saved_of params uninit fp1 \<noteq> params \<or>
               mem_free w < unat (width thumb1) * unat (height thumb1)"
      "load_stream w thumb params uninit fp = Some (fclose w, thumb1, False)"
  | (short) w4 thumb2 buf where
      "cnt = 3" "header = [0x50, 0x36]" "saved_of params uninit fp1 = params"
      "pixmap_create w thumb1 (width thumb1) (height thumb1) = (w4, thumb2, True)"
      "length buf = unat (width thumb1) * unat (height thumb1)"
      "load_stream w thumb params uninit fp =
         Some (fclose (pixmap_free (store_pixels w4 thumb2 buf) thumb2), thumb2, False)"
  | (loaded) w4 thumb2 buf fp5 where
      "cnt = 3" "header = [0x50, 0x36]" "saved_of params uninit fp1 = params"
      "pixmap_create w thumb1 (width thumb1) (height thumb1) = (w4, thumb2, True)"
      "load_pixels (width thumb1 * height thumb1) 0 (payload_of params fp1)
         (replicate (unat (width thumb1) * unat (height thumb1)) 0) = Some (True, buf, fp5)"
      "load_stream w thumb params uninit fp = Some (fclose (store_pixels w4 thumb2 buf), thumb2, True)"
proof -
  note u = load_stream_unfold [OF sc, of w params uninit]
  obtain w4 thumb2 created
    where cr: "pixmap_create w thumb1 (width thumb1) (height thumb1) = (w4, thumb2, created)"
    by (cases "pixmap_create w thumb1 (width thumb1) (height thumb1)") auto
  show thesis
  proof (cases "cnt \<noteq> 3 \<or> header \<noteq> [0x50, 0x36] \<or> saved_of params uninit fp1 \<noteq> params")
    case True
    then show thesis
      using u by (intro rejected) auto
  next
    case ok: False
    show thesis
    proof (cases created)
      case False
      with cr have "w4 = w \<and> thumb2 = thumb1"
        by (simp add: pixmap_create_False)
      moreover from False cr have "mem_free w < unat (width thumb1) * unat (height thumb1)"
        using pixmap_create_iff [of w thumb1 "width thumb1" "height thumb1"] by simp
      ultimately show thesis
        using u ok cr False by (intro rejected) auto
    next
      case True
      with cr have cr': "pixmap_create w thumb1 (width thumb1) (height thumb1) = (w4, thumb2, True)"
        by simp
      note f = pixmap_create_True [OF cr']
      have wh: "width thumb2 = width thumb1" "height thumb2 = height thumb1"
        by (simp_all add: f(1))
      have "unat (width thumb1 * height thumb1) \<le> length (pixels_of w4 thumb2)"
        by (simp add: f(5) unat_mult_le)
      then obtain r buf s' where
        lp: "load_pixels (width thumb1 * height thumb1) 0 (payload_of params fp1)
               (pixels_of w4 thumb2) = Some (r, buf, s')"
        and len: "length buf = length (pixels_of w4 thumb2)"
        using load_pixels_total by blast
      show thesis
      proof (cases r)
        case True
        show thesis
        proof (rule loaded)
          show "load_pixels (width thumb1 * height thumb1) 0 (payload_of params fp1)
                  (replicate (unat (width thumb1) * unat (height thumb1)) 0) = Some (True, buf, s')"
            using lp True by (simp add: f(5))
          show "load_stream w thumb params uninit fp =
                  Some (fclose (store_pixels w4 thumb2 buf), thumb2, True)"
            using u ok cr' lp wh True by simp
        qed (use ok cr' in auto)
      next
        case False
        show thesis
        proof (rule short)
          show "length buf = unat (width thumb1) * unat (height thumb1)"
            using len by (simp add: f(5))
          show "load_stream w thumb params uninit fp =
                  Some (fclose (pixmap_free (store_pixels w4 thumb2 buf) thumb2), thumb2, False)"
            using u ok cr' lp wh False by simp
        qed (use ok cr' in auto)
      qed
    qed
  qed
qed

lemma fopen_rb_eq:
  "fopen_rb w p =
     (if max_open w \<le> open_files w \<or> fs w p = None then (w, None)
      else (w\<lparr>open_files := open_files w + 1\<rparr>, Some (stream_of (the (fs w p)))))"
  by (auto simp: fopen_rb_def split: option.splits node.splits)

lemma stat_get_thumb_path [simp]: "stat (fst (get_thumb_path w s)) q = stat w q"
  by (simp add: stat_def)

text \<open>The ways the first part of \<^verbatim>\<open>thumbnail_load\<close> can end.\<close>

lemma thumbnail_load_cases:
  obtains
    (miss) "snd (get_thumb_path w source) = None \<or> stat w source = None \<or>
            stat w (the (snd (get_thumb_path w source))) = None \<or>
            the (stat w source) > the (stat w (the (snd (get_thumb_path w source)))) \<or>
            max_open w \<le> open_files w"
      "thumbnail_load w thumb source params uninit = Some (fst (get_thumb_path w source), thumb, False)"
  | (opened) p ts tc n where
      "snd (get_thumb_path w source) = Some p" "stat w source = Some ts" "stat w p = Some tc"
      "ts \<le> tc" "open_files w < max_open w" "fs w p = Some n"
      "thumbnail_load w thumb source params uninit =
         load_stream ((fst (get_thumb_path w source))\<lparr>open_files := open_files w + 1\<rparr>)
           thumb params uninit (stream_of n)"
proof -
  obtain w1 p1 where g: "get_thumb_path w source = (w1, p1)"
    by (cases "get_thumb_path w source")
  then have w1: "w1 = fst (get_thumb_path w source)" and p1: "p1 = snd (get_thumb_path w source)"
    by simp_all
  have st: "stat w1 q = stat w q" for q
    by (simp add: w1)
  have of1: "open_files w1 = open_files w" "max_open w1 = max_open w" "fs w1 = fs w"
    by (simp_all add: w1)
  show thesis
  proof (cases "p1 = None \<or> stat w source = None \<or> stat w (the p1) = None \<or>
                the (stat w source) > the (stat w (the p1))")
    case True
    then have "thumbnail_load w thumb source params uninit = Some (w1, thumb, False)"
      unfolding thumbnail_load_def g by (auto simp: st)
    then show thesis
      using True unfolding w1 p1 by (intro miss) auto
  next
    case False
    then obtain p ts tc where p: "p1 = Some p" and ts: "stat w source = Some ts"
      and tc: "stat w p = Some tc" and le: "ts \<le> tc"
      by auto
    from tc obtain n where n: "fs w p = Some n"
      by (auto simp: stat_def)
    have g2: "get_thumb_path w1 source = (w1, Some p)"
      using g p by (intro get_thumb_path_again [of w]) simp
    have tl: "thumbnail_load w thumb source params uninit =
              (case fopen_rb w1 p of
                 (w3, None) \<Rightarrow> Some (w3, thumb, False)
               | (w3, Some fp) \<Rightarrow> load_stream w3 thumb params uninit fp)"
      unfolding thumbnail_load_def g using g2 p ts tc le by (simp add: st)
    show thesis
    proof (cases "max_open w \<le> open_files w")
      case True
      then have "thumbnail_load w thumb source params uninit = Some (w1, thumb, False)"
        by (simp add: tl fopen_rb_eq of1)
      then show thesis
        using True unfolding w1 by (intro miss) auto
    next
      case False
      then have "thumbnail_load w thumb source params uninit =
                 load_stream (w1\<lparr>open_files := open_files w + 1\<rparr>) thumb params uninit (stream_of n)"
        using n by (simp add: tl fopen_rb_eq of1)
      then show thesis
        using False p ts tc le n unfolding w1 p1 by (intro opened [of p ts tc n]) auto
    qed
  qed
qed

subsection \<open>The file system does not matter once the stream is open\<close>

lemma fs_update_commute:
  "pixmap_create (w\<lparr>fs := f\<rparr>) pm a b =
     (case pixmap_create w pm a b of (w', pm', r) \<Rightarrow> (w'\<lparr>fs := f\<rparr>, pm', r))"
  "pixels_of (w\<lparr>fs := f\<rparr>) pm = pixels_of w pm"
  "store_pixels (w\<lparr>fs := f\<rparr>) pm buf = (store_pixels w pm buf)\<lparr>fs := f\<rparr>"
  "pixmap_free (w\<lparr>fs := f\<rparr>) pm = (pixmap_free w pm)\<lparr>fs := f\<rparr>"
  "fclose (w\<lparr>fs := f\<rparr>) = (fclose w)\<lparr>fs := f\<rparr>"
  by (simp_all add: pixmap_create_def Let_def pixels_of_def buffer_at_def store_pixels_def
      pixmap_free_def fclose_def split: option.splits)

lemma get_thumb_path_fs:
  "get_thumb_path (w\<lparr>fs := f\<rparr>) s = ((fst (get_thumb_path w s))\<lparr>fs := f\<rparr>, snd (get_thumb_path w s))"
  by (cases "cache_dir w"; cases "env_xdg_cache_home w"; cases "env_home w";
      simp add: get_thumb_path_def Let_def)

lemma load_stream_fs:
  "load_stream (w\<lparr>fs := f\<rparr>) thumb params uninit fp =
     map_option (\<lambda>(w', th, r). (w'\<lparr>fs := f\<rparr>, th, r)) (load_stream w thumb params uninit fp)"
proof -
  obtain cnt header thumb1 fp1 where sc: "fscanf_header fp thumb = (cnt, header, thumb1, fp1)"
    by (cases "fscanf_header fp thumb") auto
  show ?thesis
    unfolding load_stream_unfold [OF sc] fs_update_commute
    by (auto split: prod.splits option.splits simp: fs_update_commute)
qed

lemma load_stream_fs_same:
  assumes "load_stream w thumb params uninit fp = Some (w', thumb', r)"
  shows "fs w' = fs w"
proof -
  obtain cnt header thumb1 fp1 where sc: "fscanf_header fp thumb = (cnt, header, thumb1, fp1)"
    by (cases "fscanf_header fp thumb") auto
  from sc show ?thesis
  proof (cases rule: load_stream_cases [where params = params and uninit = uninit and w = w])
    case rejected
    with assms show ?thesis by auto
  next
    case (short w4 thumb2 buf)
    with assms release_after_create(3) [OF short(4,5)] show ?thesis by auto
  next
    case (loaded w4 thumb2 buf fp5)
    with assms pixmap_create_True(6) [OF loaded(4)] show ?thesis
      by (auto simp: store_pixels_def)
  qed
qed

subsection \<open>Loading an entry in the format of the cache\<close>

lemma fscanf_header_entry:
  "fscanf_header (entry_bytes wd ht saved pxs) thumb =
     (3, [0x50, 0x36], thumb\<lparr>width := wd, height := ht\<rparr>,
      0x23 # saved @ 0x0A # concat (map pixel_rgb pxs))"
  using fscanf_header_bytes [of wd ht "saved @ 0x0A # concat (map pixel_rgb pxs)" thumb]
  by (simp add: entry_bytes_def)

lemma saved_of_entry:
  "length saved = length params \<Longrightarrow> saved_of params uninit (0x23 # saved @ rest) = saved"
  by (simp add: saved_of_def)

lemma payload_of_entry:
  "length saved = length params \<Longrightarrow> payload_of params (0x23 # saved @ 0x0A # rest) = rest"
  by (simp add: payload_of_def)

text \<open>The state after a successful load: one more buffer, the stream closed again.\<close>

lemma load_stream_entry:
  assumes n: "unat (wd * ht) < 2 ^ 32" and m: "unat wd * unat ht \<le> mem_free w"
    and l: "length pxs = unat (wd * ht)"
  shows "load_stream w thumb params uninit (entry_bytes wd ht params pxs) =
     Some (w\<lparr>heap := heap w @
                [Some (map opaque pxs @ replicate (unat wd * unat ht - unat (wd * ht)) 0)],
              mem_free := mem_free w - unat wd * unat ht,
              open_files := open_files w - 1\<rparr>,
           \<lparr>width = wd, height = ht, data = length (heap w) + 1\<rparr>, True)"
proof -
  let ?t1 = "thumb\<lparr>width := wd, height := ht\<rparr>"
  let ?N = "unat wd * unat ht"
  let ?w4 = "w\<lparr>heap := heap w @ [Some (replicate ?N 0)], mem_free := mem_free w - ?N\<rparr>"
  let ?t2 = "\<lparr>width = wd, height = ht, data = Suc (length (heap w))\<rparr>"
  have cr: "pixmap_create w ?t1 wd ht = (?w4, ?t2, True)"
    using m by (simp add: pixmap_create_def Let_def)
  have px: "pixels_of ?w4 ?t2 = replicate ?N 0"
    by (simp add: pixels_of_def buffer_at_def)
  have le: "unat (wd * ht) \<le> ?N"
    by (rule unat_mult_le)
  have lp: "load_pixels (wd * ht) 0 (concat (map pixel_rgb pxs)) (replicate ?N 0) =
            Some (True, map opaque pxs @ replicate (?N - unat (wd * ht)) 0, [])"
    using load_pixels_payload [of "wd * ht" "replicate ?N 0" 0 pxs] n le l
    by simp
  have st: "fclose (store_pixels ?w4 ?t2 buf) =
            w\<lparr>heap := heap w @ [Some buf], mem_free := mem_free w - ?N,
              open_files := open_files w - 1\<rparr>" for buf
    by (simp add: fclose_def store_pixels_def)
  show ?thesis
    unfolding load_stream_unfold [OF fscanf_header_entry]
    by (simp add: saved_of_entry payload_of_entry cr px lp st)
qed

lemma thumbnail_load_entry:
  assumes p: "snd (get_thumb_path w source) = Some p"
    and ts: "stat w source = Some ts" and f: "fs w p = Some (File tc (entry_bytes wd ht params pxs))"
    and le: "ts \<le> tc" and op: "open_files w < max_open w"
    and n: "unat (wd * ht) < 2 ^ 32" and m: "unat wd * unat ht \<le> mem_free w"
    and l: "length pxs = unat (wd * ht)"
  shows "thumbnail_load w thumb source params uninit =
     Some ((fst (get_thumb_path w source))\<lparr>heap := heap w @
                [Some (map opaque pxs @ replicate (unat wd * unat ht - unat (wd * ht)) 0)],
              mem_free := mem_free w - unat wd * unat ht\<rparr>,
           \<lparr>width = wd, height = ht, data = length (heap w) + 1\<rparr>, True)"
proof (cases rule: thumbnail_load_cases [where w = w and source = source and thumb = thumb
          and params = params and uninit = uninit])
  case miss
  with p ts f le op show ?thesis
    by (auto simp: stat_def)
next
  case (opened p' ts' tc' n')
  with p f have "n' = File tc (entry_bytes wd ht params pxs)"
    by simp
  then show ?thesis
    using opened(7) load_stream_entry [OF n _ l, where thumb = thumb and params = params and uninit = uninit
        and w = "(fst (get_thumb_path w source))\<lparr>open_files := open_files w + 1\<rparr>"] m
    by simp
qed

subsection \<open>The ways a save can end\<close>

lemma pixels_of_heap: "heap w' = heap w \<Longrightarrow> pixels_of w' pm = pixels_of w pm"
  by (simp add: pixels_of_def buffer_at_def)

lemma thumbnail_save_cases:
  fixes w source
  defines "w1 \<equiv> fst (get_thumb_path w source)"
  obtains
    (unresolved) "snd (get_thumb_path w source) = None"
      "thumbnail_save w thumb source params = Some (w1, False)"
  | (no_directory) p where "snd (get_thumb_path w source) = Some p"
      "\<not> snd (make_directories w1 p)"
      "thumbnail_save w thumb source params = Some (fst (make_directories w1 p), False)"
  | (no_file) p where "snd (get_thumb_path w source) = Some p"
      "snd (make_directories w1 p)" "snd (fopen_wb (fst (make_directories w1 p)) p) = None"
      "thumbnail_save w thumb source params = Some (fst (make_directories w1 p), False)"
  | (opened) p w3 where "snd (get_thumb_path w source) = Some p"
      "snd (make_directories w1 p)" "fopen_wb (fst (make_directories w1 p)) p = (w3, Some p)"
      "thumbnail_save w thumb source params =
         (case save_pixels (fwrite w3 p (header_bytes (width thumb) (height thumb) @ [0x23] @
                                          params @ [0x0A]))
                 p (width thumb * height thumb) (pixels_of w thumb) 0 of
            None \<Rightarrow> None
          | Some w8 \<Rightarrow> Some (fclose w8, True))"
proof -
  obtain p1 where g: "get_thumb_path w source = (w1, p1)"
    by (cases "get_thumb_path w source") (simp add: w1_def)
  show thesis
  proof (cases p1)
    case None
    with g show thesis
      by (intro unresolved) (simp_all add: thumbnail_save_def)
  next
    case (Some p)
    obtain w2 made where m: "make_directories w1 p = (w2, made)"
      by (cases "make_directories w1 p")
    show thesis
    proof (cases made)
      case False
      with g Some m show thesis
        by (intro no_directory [of p]) (simp_all add: thumbnail_save_def)
    next
      case True
      obtain w3 fo where o: "fopen_wb w2 p = (w3, fo)"
        by (cases "fopen_wb w2 p")
      show thesis
      proof (cases fo)
        case None
        with o have "w3 = w2"
          by (simp add: fopen_wb_None)
        with g Some m True o None show thesis
          by (intro no_file [of p]) (simp_all add: thumbnail_save_def)
      next
        case (Some fp)
        with o have fp: "fp = p"
          using fopen_wb_Some(1) by blast
        have h3: "heap w3 = heap w"
          using fopen_wb_Some(6) [OF o [unfolded Some]] m
            make_directories_fields(1) [of w1 p] by (simp add: w1_def)
        have px: "pixels_of (fwrite w3 p bs) thumb = pixels_of w thumb" for bs
          by (rule pixels_of_heap) (simp add: h3)
        have "thumbnail_save w thumb source params =
         (case save_pixels (fwrite w3 p (header_bytes (width thumb) (height thumb) @ [0x23] @
                                          params @ [0x0A]))
                 p (width thumb * height thumb) (pixels_of w thumb) 0 of
            None \<Rightarrow> None
          | Some w8 \<Rightarrow> Some (fclose w8, True))"
          using g \<open>p1 = Some p\<close> m True o Some fp
          by (simp add: thumbnail_save_def Let_def fwrite_fwrite px)
        with g \<open>p1 = Some p\<close> m True o Some fp show thesis
          by (intro opened [of p w3]) simp_all
      qed
    qed
  qed
qed

text \<open>A save that returns success has written the entry, as far as the space reached.\<close>

lemma thumbnail_save_True:
  assumes "thumbnail_save w thumb source params = Some (w', True)"
  obtains p w3 where "snd (get_thumb_path w source) = Some p"
    "snd (make_directories (fst (get_thumb_path w source)) p)"
    "fopen_wb (fst (make_directories (fst (get_thumb_path w source)) p)) p = (w3, Some p)"
    "unat (width thumb * height thumb) < 2 ^ 32"
    "unat (width thumb * height thumb) \<le> length (pixels_of w thumb)"
    "w' = fclose (fwrite w3 p (entry_bytes (width thumb) (height thumb) params
                    (take (unat (width thumb * height thumb)) (pixels_of w thumb))))"
proof (cases rule: thumbnail_save_cases [where w = w and source = source and thumb = thumb
          and params = params])
  case unresolved
  with assms show ?thesis by simp
next
  case (no_directory p)
  with assms show ?thesis by simp
next
  case (no_file p)
  with assms show ?thesis by simp
next
  case (opened p w3)
  let ?n = "width thumb * height thumb"
  let ?hd = "header_bytes (width thumb) (height thumb) @ [0x23] @ params @ [0x0A]"
  from assms opened(4) obtain w8 where
    sp: "save_pixels (fwrite w3 p ?hd) p ?n (pixels_of w thumb) 0 = Some w8" and w': "w' = fclose w8"
    by (auto split: option.splits)
  from save_pixels_Some [OF sp] have n: "unat ?n < 2 ^ 32" and l: "unat ?n \<le> length (pixels_of w thumb)"
    by auto
  from save_pixels_run [OF n l, of 0 w3 p ?hd] sp
  have "w8 = fwrite w3 p (entry_bytes (width thumb) (height thumb) params
                    (take (unat ?n) (pixels_of w thumb)))"
    by (simp add: entry_bytes_def)
  with opened n l w' show ?thesis
    by (intro that [of p w3]) simp_all
qed

lemma thumbnail_save_run:
  assumes "snd (get_thumb_path w source) = Some p"
    and "snd (make_directories (fst (get_thumb_path w source)) p)"
    and "fopen_wb (fst (make_directories (fst (get_thumb_path w source)) p)) p = (w3, Some p)"
    and n: "unat (width thumb * height thumb) < 2 ^ 32"
    and l: "unat (width thumb * height thumb) \<le> length (pixels_of w thumb)"
  shows "thumbnail_save w thumb source params =
     Some (fclose (fwrite w3 p (entry_bytes (width thumb) (height thumb) params
                    (take (unat (width thumb * height thumb)) (pixels_of w thumb)))), True)"
proof (cases rule: thumbnail_save_cases [where w = w and source = source and thumb = thumb
          and params = params])
  case unresolved
  with assms show ?thesis by simp
next
  case (no_directory p')
  with assms show ?thesis by simp
next
  case (no_file p')
  with assms show ?thesis by simp
next
  case (opened p' w3')
  with assms have e: "p' = p" "w3' = w3"
    by simp_all
  let ?hd = "header_bytes (width thumb) (height thumb) @ [0x23] @ params @ [0x0A]"
  show ?thesis
    unfolding opened(4) e
    using save_pixels_run [OF n l, of 0 w3 p ?hd]
    by (simp add: entry_bytes_def)
qed

subsection \<open>The example states\<close>

lemma replicate_2: "replicate 2 x = [x, x]"
  by (simp add: numeral_2_eq_2)

lemma scan_example:
  "fscanf_header [0x50, 0x36, 0x0A, 0x32, 0x20, 0x31, 0x0A, 0x32, 0x35, 0x35, 0x0A,
                       0x23, 7, 8, 9, 0x0A, 0x11, 0x22, 0x33, 0x44, 0x55, 0x66] t =
   (3, [0x50, 0x36], t\<lparr>width := 2, height := 1\<rparr>, [0x23, 7, 8, 9, 0x0A, 0x11, 0x22, 0x33, 0x44, 0x55, 0x66])"
  by (simp add: fscanf_header_def scan_s2_def scan_zu_def isspace_def isdigit_def digits_value_def)

lemma load_example:
  "thumbnail_load world_cached \<lparr>width = 0, height = 0, data = 0\<rparr> ''/a.png'' [7, 8, 9] [0, 0, 0] =
     Some (world_loaded, \<lparr>width = 2, height = 1, data = 2\<rparr>, True)"
  by (simp add: thumbnail_load_def load_stream_def scan_example get_thumb_path_def world_cached_def
      world_loaded_def PATH_MAX_def stat_def fopen_rb_def Let_def pixmap_create_def pixels_of_def
      buffer_at_def ARGB_def store_pixels_def fclose_def replicate_2)

lemma header_bytes_2_1:
  "header_bytes 2 1 = [0x50, 0x36, 0x0A, 0x32, 0x20, 0x31, 0x0A, 0x32, 0x35, 0x35, 0x0A]"
  by (simp add: header_bytes_def show_nat.simps)

lemma cache_path_example:
  "snd (get_thumb_path world_cached ''/a.png'') = Some ''/h/.swayimg/a.png''"
  by (simp add: get_thumb_path_def world_cached_def PATH_MAX_def Let_def)

lemma entry_example:
  "entry_bytes 2 1 [7, 8, 9] [0x80112233, 0xFF445566] =
     [0x50, 0x36, 0x0A, 0x32, 0x20, 0x31, 0x0A, 0x32, 0x35, 0x35, 0x0A,
      0x23, 7, 8, 9, 0x0A, 0x11, 0x22, 0x33, 0x44, 0x55, 0x66]"
  by (simp add: entry_bytes_def header_bytes_2_1 pixel_rgb_def)

lemma save_path_example:
  "get_thumb_path (world_home\<lparr>free_space := k\<rparr>) ''/a.png'' =
     (world_home\<lparr>free_space := k, env_home := Some ''/h/.swayimg'',
        cache_dir := Some ''/h/.swayimg''\<rparr>, Some ''/h/.swayimg/a.png'')"
  by (simp add: get_thumb_path_def world_home_def PATH_MAX_def Let_def)

lemma save_directories_example:
  "make_directories (world_home\<lparr>free_space := k, env_home := Some ''/h/.swayimg'',
        cache_dir := Some ''/h/.swayimg''\<rparr>) ''/h/.swayimg/a.png'' =
     (world_home\<lparr>free_space := k, env_home := Some ''/h/.swayimg'',
        cache_dir := Some ''/h/.swayimg'',
        fs := [''/a.png'' \<mapsto> File 5 [1, 2, 3], ''/h'' \<mapsto> Dir 20, ''/h/.swayimg'' \<mapsto> Dir 20]\<rparr>,
      True)"
  by (simp add: make_directories_def mkdir_def parent_is_dir_def dirname_def world_home_def)

lemma save_open_example:
  "fopen_wb (world_home\<lparr>free_space := k, env_home := Some ''/h/.swayimg'',
        cache_dir := Some ''/h/.swayimg'',
        fs := [''/a.png'' \<mapsto> File 5 [1, 2, 3], ''/h'' \<mapsto> Dir 20, ''/h/.swayimg'' \<mapsto> Dir 20]\<rparr>)
      ''/h/.swayimg/a.png'' =
     (world_home\<lparr>free_space := k, env_home := Some ''/h/.swayimg'',
        cache_dir := Some ''/h/.swayimg'',
        fs := [''/a.png'' \<mapsto> File 5 [1, 2, 3], ''/h'' \<mapsto> Dir 20, ''/h/.swayimg'' \<mapsto> Dir 20,
               ''/h/.swayimg/a.png'' \<mapsto> File 20 []],
        open_files := 1\<rparr>, Some ''/h/.swayimg/a.png'')"
  by (simp add: fopen_wb_def parent_is_dir_def dirname_def world_home_def)

lemma save_example_space:
  "thumbnail_save (world_home\<lparr>free_space := k\<rparr>) example_pixmap ''/a.png'' [7, 8, 9] =
     Some (world_home\<lparr>env_home := Some ''/h/.swayimg'', cache_dir := Some ''/h/.swayimg'',
       fs := [''/a.png'' \<mapsto> File 5 [1, 2, 3], ''/h'' \<mapsto> Dir 20, ''/h/.swayimg'' \<mapsto> Dir 20,
              ''/h/.swayimg/a.png'' \<mapsto>
                File 20 (take k [0x50, 0x36, 0x0A, 0x32, 0x20, 0x31, 0x0A, 0x32, 0x35, 0x35, 0x0A,
                         0x23, 7, 8, 9, 0x0A, 0x11, 0x22, 0x33, 0x44, 0x55, 0x66])],
       free_space := k - 22\<rparr>, True)"
proof -
  have px: "pixels_of (world_home\<lparr>free_space := k\<rparr>) example_pixmap = [0x80112233, 0xFF445566]"
    by (simp add: pixels_of_def buffer_at_def world_home_def example_pixmap_def)
  have wh: "width example_pixmap = 2" "height example_pixmap = 1"
    by (simp_all add: example_pixmap_def)
  have "thumbnail_save (world_home\<lparr>free_space := k\<rparr>) example_pixmap ''/a.png'' [7, 8, 9] =
     Some (fclose (fwrite (world_home\<lparr>free_space := k, env_home := Some ''/h/.swayimg'',
        cache_dir := Some ''/h/.swayimg'',
        fs := [''/a.png'' \<mapsto> File 5 [1, 2, 3], ''/h'' \<mapsto> Dir 20, ''/h/.swayimg'' \<mapsto> Dir 20,
               ''/h/.swayimg/a.png'' \<mapsto> File 20 []],
        open_files := 1\<rparr>) ''/h/.swayimg/a.png''
        (entry_bytes (width example_pixmap) (height example_pixmap) [7, 8, 9]
           (take (unat (width example_pixmap * height example_pixmap))
              (pixels_of (world_home\<lparr>free_space := k\<rparr>) example_pixmap)))), True)"
    by (rule thumbnail_save_run)
       (simp_all add: save_path_example save_directories_example save_open_example px wh)
  then have "thumbnail_save (world_home\<lparr>free_space := k\<rparr>) example_pixmap ''/a.png'' [7, 8, 9] =
     Some (fclose (fwrite (world_home\<lparr>free_space := k, env_home := Some ''/h/.swayimg'',
        cache_dir := Some ''/h/.swayimg'',
        fs := [''/a.png'' \<mapsto> File 5 [1, 2, 3], ''/h'' \<mapsto> Dir 20, ''/h/.swayimg'' \<mapsto> Dir 20,
               ''/h/.swayimg/a.png'' \<mapsto> File 20 []],
        open_files := 1\<rparr>) ''/h/.swayimg/a.png''
        [0x50, 0x36, 0x0A, 0x32, 0x20, 0x31, 0x0A, 0x32, 0x35, 0x35, 0x0A,
         0x23, 7, 8, 9, 0x0A, 0x11, 0x22, 0x33, 0x44, 0x55, 0x66]), True)"
    by (simp add: px wh entry_example)
  then show ?thesis
    by (simp add: fwrite_def fclose_def world_home_def)
qed


lemma save_example:
  "thumbnail_save world_home example_pixmap ''/a.png'' [7, 8, 9] = Some (world_saved, True)"
  using save_example_space [of 1000]
  by (simp add: world_home_def world_saved_def)

subsection \<open>Freshness\<close>

lemma thumbnail_load_True:
  assumes "thumbnail_load w thumb source params uninit = Some (w', thumb', True)"
  obtains p ts tc n where
    "snd (get_thumb_path w source) = Some p" "stat w source = Some ts" "stat w p = Some tc"
    "ts \<le> tc" "open_files w < max_open w" "fs w p = Some n"
    "load_stream ((fst (get_thumb_path w source))\<lparr>open_files := open_files w + 1\<rparr>)
       thumb params uninit (stream_of n) = Some (w', thumb', True)"
  using assms
  by (cases rule: thumbnail_load_cases [where w = w and source = source and thumb = thumb
        and params = params and uninit = uninit]) auto

text \<open>
  Claim C1. \<^verbatim>\<open>thumbnail_load\<close> succeeds only if the path resolves, both files have a
  status and the status-change time of the source is not later than that of the cache
  file. The other direction is not tested: when a load succeeds, it succeeds in the same
  way (same pixel map, same pixels) with the cache file stamped at any later time \<open>t\<close>,
  however far in the future.
\<close>

theorem load_accepts_only_fresh:
  assumes "thumbnail_load w thumb source params uninit = Some (w', thumb', True)"
  shows "\<exists>p ts tc. snd (get_thumb_path w source) = Some p \<and>
           stat w source = Some ts \<and> stat w p = Some tc \<and> ts \<le> tc \<and>
           (\<forall>t. tc \<le> t \<longrightarrow>
              thumbnail_load (set_ctime w p t) thumb source params uninit =
                Some (set_ctime w' p t, thumb', True))"
proof -
  from assms obtain p ts tc n where
    p: "snd (get_thumb_path w source) = Some p" and ts: "stat w source = Some ts"
    and tc: "stat w p = Some tc" and le: "ts \<le> tc" and op: "open_files w < max_open w"
    and n: "fs w p = Some n"
    and ls: "load_stream ((fst (get_thumb_path w source))\<lparr>open_files := open_files w + 1\<rparr>)
       thumb params uninit (stream_of n) = Some (w', thumb', True)"
    by (rule thumbnail_load_True)
  have fs': "fs w' = fs w"
    using load_stream_fs_same [OF ls] by simp
  have later: "thumbnail_load (set_ctime w p t) thumb source params uninit =
                Some (set_ctime w' p t, thumb', True)" if t: "tc \<le> t" for t
  proof -
    define f where "f = (fs w)(p := Some (restamp t n))"
    have w2: "set_ctime w p t = w\<lparr>fs := f\<rparr>"
      by (simp add: set_ctime_def f_def n)
    have w2': "set_ctime w' p t = w'\<lparr>fs := f\<rparr>"
      by (simp add: set_ctime_def f_def n fs')
    have g: "get_thumb_path (w\<lparr>fs := f\<rparr>) source =
             ((fst (get_thumb_path w source))\<lparr>fs := f\<rparr>, Some p)"
      by (simp add: get_thumb_path_fs p)
    have sp: "stat (w\<lparr>fs := f\<rparr>) p = Some t"
      by (cases n) (simp_all add: stat_def f_def)
    have ss: "\<exists>ts'. stat (w\<lparr>fs := f\<rparr>) source = Some ts' \<and> ts' \<le> t"
    proof (cases "source = p")
      case True
      with sp show ?thesis by simp
    next
      case False
      then have "stat (w\<lparr>fs := f\<rparr>) source = stat w source"
        by (simp add: stat_def f_def)
      with ts le t show ?thesis by simp
    qed
    have so: "stream_of (restamp t n) = stream_of n"
      by (cases n) simp_all
    have "thumbnail_load (w\<lparr>fs := f\<rparr>) thumb source params uninit =
            Some (w'\<lparr>fs := f\<rparr>, thumb', True)"
    proof (cases rule: thumbnail_load_cases [where w = "w\<lparr>fs := f\<rparr>" and source = source
          and thumb = thumb and params = params and uninit = uninit])
      case miss
      with g sp ss op show ?thesis
        by auto
    next
      case (opened p' ts' tc' n')
      from opened(1) g have "p' = p"
        by simp
      with opened(6) have "n' = restamp t n"
        by (simp add: f_def)
      moreover have e: "(fst (get_thumb_path w source))\<lparr>fs := f, open_files := open_files w + 1\<rparr> =
                     ((fst (get_thumb_path w source))\<lparr>open_files := open_files w + 1\<rparr>)\<lparr>fs := f\<rparr>"
        by simp
      have "load_stream ((fst (get_thumb_path w source))\<lparr>fs := f,
                         open_files := open_files w + 1\<rparr>) thumb params uninit (stream_of n) =
                     Some (w'\<lparr>fs := f\<rparr>, thumb', True)"
        unfolding e load_stream_fs ls by simp
      ultimately show ?thesis
        using opened(7) g so by simp
    qed
    then show ?thesis
      by (simp add: w2 w2')
  qed
  show ?thesis
    using p ts tc le later by blast
qed

theorem load_accepts_only_fresh_witness:
  "thumbnail_load world_cached \<lparr>width = 0, height = 0, data = 0\<rparr> ''/a.png'' [7, 8, 9] [0, 0, 0] =
     Some (world_loaded, \<lparr>width = 2, height = 1, data = 2\<rparr>, True) \<and>
   (\<exists>p ts tc. snd (get_thumb_path world_cached ''/a.png'') = Some p \<and>
      stat world_cached ''/a.png'' = Some ts \<and> stat world_cached p = Some tc \<and> ts \<le> tc \<and>
      thumbnail_load (set_ctime world_cached p (tc + 1000000)) \<lparr>width = 0, height = 0, data = 0\<rparr>
          ''/a.png'' [7, 8, 9] [0, 0, 0] =
        Some (set_ctime world_loaded p (tc + 1000000), \<lparr>width = 2, height = 1, data = 2\<rparr>, True))"
proof -
  from load_accepts_only_fresh [OF load_example] obtain p where
    "\<exists>ts tc. snd (get_thumb_path world_cached ''/a.png'') = Some p \<and>
      stat world_cached ''/a.png'' = Some ts \<and> stat world_cached p = Some tc \<and> ts \<le> tc \<and>
      (\<forall>t. tc \<le> t \<longrightarrow>
          thumbnail_load (set_ctime world_cached p t) \<lparr>width = 0, height = 0, data = 0\<rparr>
            ''/a.png'' [7, 8, 9] [0, 0, 0] =
          Some (set_ctime world_loaded p t, \<lparr>width = 2, height = 1, data = 2\<rparr>, True))" ..
  then obtain ts where
    "\<exists>tc. snd (get_thumb_path world_cached ''/a.png'') = Some p \<and>
      stat world_cached ''/a.png'' = Some ts \<and> stat world_cached p = Some tc \<and> ts \<le> tc \<and>
      (\<forall>t. tc \<le> t \<longrightarrow>
          thumbnail_load (set_ctime world_cached p t) \<lparr>width = 0, height = 0, data = 0\<rparr>
            ''/a.png'' [7, 8, 9] [0, 0, 0] =
          Some (set_ctime world_loaded p t, \<lparr>width = 2, height = 1, data = 2\<rparr>, True))" ..
  then obtain tc where
    c: "snd (get_thumb_path world_cached ''/a.png'') = Some p \<and>
      stat world_cached ''/a.png'' = Some ts \<and> stat world_cached p = Some tc \<and> ts \<le> tc \<and>
      (\<forall>t. tc \<le> t \<longrightarrow>
          thumbnail_load (set_ctime world_cached p t) \<lparr>width = 0, height = 0, data = 0\<rparr>
            ''/a.png'' [7, 8, 9] [0, 0, 0] =
          Some (set_ctime world_loaded p t, \<lparr>width = 2, height = 1, data = 2\<rparr>, True))" ..
  note a1 = conjunct1 [OF c]
  note a2 = conjunct1 [OF conjunct2 [OF c]]
  note a3 = conjunct1 [OF conjunct2 [OF conjunct2 [OF c]]]
  note a4 = conjunct1 [OF conjunct2 [OF conjunct2 [OF conjunct2 [OF c]]]]
  note b = conjunct2 [OF conjunct2 [OF conjunct2 [OF conjunct2 [OF c]]]]
  have le: "tc \<le> tc + 1000000"
    by simp
  note b' = mp [OF spec [OF b] le]
  show ?thesis
    apply (rule conjI [OF load_example])
    apply (rule exI [of _ p])
    apply (rule exI [of _ ts])
    apply (rule exI [of _ tc])
    apply (intro conjI a1 a2 a3 a4 b')
    done
qed

subsection \<open>Parameters\<close>

text \<open>
  Claim C2. The cache file holds an entry in the format of the cache (header, marker,
  a block \<open>saved\<close> of as many bytes as the parameters have, then anything). If the
  block differs from the bytes of the caller's parameters in any byte,
  \<^verbatim>\<open>thumbnail_load\<close> returns \<^verbatim>\<open>false\<close>, whatever the state of the source file.
  The comparison is \<^verbatim>\<open>memcmp\<close> over the whole object, so any field that differs
  (the scale too, bit for bit) makes the blocks differ.
\<close>

theorem params_mismatch_misses:
  assumes p: "snd (get_thumb_path w source) = Some p"
    and f: "fs w p = Some (File tc (header_bytes wd ht @ 0x23 # saved @ rest))"
    and l: "length saved = length params" and ne: "saved \<noteq> params"
  shows "\<exists>w' thumb'. thumbnail_load w thumb source params uninit = Some (w', thumb', False)"
proof (cases rule: thumbnail_load_cases [where w = w and source = source and thumb = thumb
          and params = params and uninit = uninit])
  case miss
  then show ?thesis
    by blast
next
  case (opened p' ts' tc' n')
  with p f have n': "stream_of n' = header_bytes wd ht @ 0x23 # saved @ rest"
    by auto
  have "saved_of params uninit (0x23 # saved @ rest) \<noteq> params"
    using l ne by (simp add: saved_of_entry)
  then show ?thesis
    unfolding opened(7) n' load_stream_unfold [OF fscanf_header_bytes]
    by simp
qed

theorem params_mismatch_misses_witness:
  "snd (get_thumb_path world_cached ''/a.png'') = Some ''/h/.swayimg/a.png'' \<and>
   fs world_cached ''/h/.swayimg/a.png'' =
     Some (File 10 (header_bytes 2 1 @ 0x23 # [7, 8, 9] @ [0x0A, 0x11, 0x22, 0x33, 0x44, 0x55, 0x66])) \<and>
   length [7, 8, 9 :: byte] = length [7, 8, 8 :: byte] \<and> [7, 8, 9] \<noteq> [7, 8, 8 :: byte] \<and>
   (\<exists>w' thumb'. thumbnail_load world_cached \<lparr>width = 0, height = 0, data = 0\<rparr> ''/a.png''
       [7, 8, 8] [0, 0, 0] = Some (w', thumb', False))"
proof -
  have f: "fs world_cached ''/h/.swayimg/a.png'' =
     Some (File 10 (header_bytes 2 1 @ 0x23 # [7, 8, 9] @ [0x0A, 0x11, 0x22, 0x33, 0x44, 0x55, 0x66]))"
    by (simp add: world_cached_def header_bytes_2_1)
  have l: "length [7, 8, 9 :: byte] = length [7, 8, 8 :: byte]"
    by simp
  have ne: "[7, 8, 9] \<noteq> [7, 8, 8 :: byte]"
    by simp
  from params_mismatch_misses [OF cache_path_example f l ne]
  have "\<exists>w' thumb'. thumbnail_load world_cached \<lparr>width = 0, height = 0, data = 0\<rparr> ''/a.png''
       [7, 8, 8] [0, 0, 0] = Some (w', thumb', False)" .
  with cache_path_example f l ne show ?thesis
    by (intro conjI)
qed

subsection \<open>Failure paths of the load\<close>

lemma fscanf_header_data:
  "fscanf_header s thumb = (cnt, header, thumb1, fp1) \<Longrightarrow> data thumb1 = data thumb"
  by (auto simp: fscanf_header_def split: option.splits prod.splits)

lemma load_bad_magic:
  "thumbnail_load world_bad_magic blank_pixmap ''/a.png'' [7, 8, 9] [0, 0, 0] =
     Some (world_bad_magic\<lparr>env_home := Some ''/h/.swayimg'', cache_dir := Some ''/h/.swayimg''\<rparr>,
           \<lparr>width = 7, height = 9, data = 0\<rparr>, False)"
  by (simp add: thumbnail_load_def load_stream_def get_thumb_path_def world_bad_magic_def
      blank_pixmap_def PATH_MAX_def stat_def fopen_rb_def Let_def fclose_def
      fscanf_header_def scan_s2_def scan_zu_def isspace_def isdigit_def digits_value_def)

lemma load_short_payload:
  "thumbnail_load world_short_payload blank_pixmap ''/a.png'' [7, 8, 9] [0, 0, 0] =
     Some (world_short_payload\<lparr>env_home := Some ''/h/.swayimg'',
       cache_dir := Some ''/h/.swayimg'', heap := [None]\<rparr>,
           \<lparr>width = 2, height = 1, data = 1\<rparr>, False)"
proof -
  have sc: "fscanf_header [0x50, 0x36, 0x0A, 0x32, 0x20, 0x31, 0x0A, 0x32, 0x35, 0x35, 0x0A,
                       0x23, 7, 8, 9, 0x0A, 0x11, 0x22, 0x33] t =
   (3, [0x50, 0x36], t\<lparr>width := 2, height := 1\<rparr>, [0x23, 7, 8, 9, 0x0A, 0x11, 0x22, 0x33])" for t
    by (simp add: fscanf_header_def scan_s2_def scan_zu_def isspace_def isdigit_def digits_value_def)
  show ?thesis
    by (simp add: thumbnail_load_def load_stream_def sc get_thumb_path_def world_short_payload_def
      blank_pixmap_def PATH_MAX_def stat_def fopen_rb_def Let_def pixmap_create_def pixels_of_def
      buffer_at_def ARGB_def store_pixels_def pixmap_free_def fclose_def replicate_2)
qed

text \<open>
  Claim C6, as amended. \<^verbatim>\<open>thumbnail_load\<close> always returns. When it returns
  \<^verbatim>\<open>false\<close>, everything the call acquired has been released: the number of open
  streams and the free memory are what they were, every pointer refers to the same
  buffer as before (the buffer the call allocated is freed), and the file system is
  unchanged. The caller's pixel map is then in one of three states. It is untouched;
  or the cache file was opened and the pixel map is what \<^verbatim>\<open>fscanf\<close> left of it,
  with the dimensions it stored from the header and the \<^verbatim>\<open>data\<close> pointer as before;
  or the whole header was read and, in addition, \<^verbatim>\<open>data\<close> is the address of the
  buffer that the call allocated and has freed again, where no buffer is live.
\<close>

theorem load_failure_state:
  "\<exists>w' thumb' r. thumbnail_load w thumb source params uninit = Some (w', thumb', r) \<and>
     (\<not> r \<longrightarrow>
        open_files w' = open_files w \<and> mem_free w' = mem_free w \<and>
        (\<forall>a. buffer_at w' a = buffer_at w a) \<and> fs w' = fs w \<and>
        free_space w' = free_space w \<and>
        (thumb' = thumb \<or>
         (\<exists>p n cnt header thumb1 fp1.
            snd (get_thumb_path w source) = Some p \<and> fs w p = Some n \<and>
            fscanf_header (stream_of n) thumb = (cnt, header, thumb1, fp1) \<and>
            data thumb1 = data thumb \<and>
            (thumb' = thumb1 \<or>
             cnt = 3 \<and> thumb' = thumb1\<lparr>data := length (heap w) + 1\<rparr> \<and>
             buffer_at w' (length (heap w) + 1) = None))))"
proof (cases rule: thumbnail_load_cases [where w = w and source = source and thumb = thumb
          and params = params and uninit = uninit])
  case miss
  then show ?thesis
    by (auto simp: buffer_at_def)
next
  case (opened p ts tc n)
  let ?w3 = "(fst (get_thumb_path w source))\<lparr>open_files := open_files w + 1\<rparr>"
  have w3: "open_files ?w3 - 1 = open_files w" "mem_free ?w3 = mem_free w"
    "buffer_at ?w3 a = buffer_at w a" "fs ?w3 = fs w" "free_space ?w3 = free_space w"
    "heap ?w3 = heap w" for a
    by (simp_all add: buffer_at_def)
  obtain cnt header thumb1 fp1
    where sc: "fscanf_header (stream_of n) thumb = (cnt, header, thumb1, fp1)"
    by (cases "fscanf_header (stream_of n) thumb") auto
  note d = fscanf_header_data [OF sc]
  from sc show ?thesis
  proof (cases rule: load_stream_cases [where params = params and uninit = uninit and w = ?w3])
    case rejected
    have "\<exists>p n cnt header thumb1' fp1.
            snd (get_thumb_path w source) = Some p \<and> fs w p = Some n \<and>
            fscanf_header (stream_of n) thumb = (cnt, header, thumb1', fp1) \<and>
            data thumb1' = data thumb \<and>
            (thumb1 = thumb1' \<or>
             cnt = 3 \<and> thumb1 = thumb1'\<lparr>data := length (heap w) + 1\<rparr> \<and>
             buffer_at (fclose ?w3) (length (heap w) + 1) = None)"
      using opened(1,6) sc d by blast
    then show ?thesis
      unfolding opened(7) rejected(2) using w3 by (simp add: fclose_def buffer_at_def) blast?
  next
    case (short w4 thumb2 buf)
    note r = release_after_create [OF short(4,5)]
    let ?w' = "fclose (pixmap_free (store_pixels w4 thumb2 buf) thumb2)"
    have t2: "thumb2 = thumb1\<lparr>data := length (heap w) + 1\<rparr>"
      using pixmap_create_True(1) [OF short(4)] w3(6) by simp
    have "buffer_at ?w3 (length (heap w) + 1) = None"
      by (simp add: buffer_at_def)
    then have "buffer_at ?w' (length (heap w) + 1) = None"
      using r(2) [of "length (heap w) + 1"] by simp
    then have "\<exists>p n cnt header thumb1' fp1.
            snd (get_thumb_path w source) = Some p \<and> fs w p = Some n \<and>
            fscanf_header (stream_of n) thumb = (cnt, header, thumb1', fp1) \<and>
            data thumb1' = data thumb \<and>
            (thumb2 = thumb1' \<or>
             cnt = 3 \<and> thumb2 = thumb1'\<lparr>data := length (heap w) + 1\<rparr> \<and>
             buffer_at ?w' (length (heap w) + 1) = None)"
      using opened(1,6) sc d t2 short(1) by blast
    then show ?thesis
      unfolding opened(7) short(6) using r(1,3,4,7) r(2) w3 by simp blast?
  next
    case (loaded w4 thumb2 buf fp5)
    then show ?thesis
      unfolding opened(7) by auto
  qed
qed

theorem load_failure_state_witness:
  "(thumbnail_load world_bad_magic blank_pixmap ''/a.png'' [7, 8, 9] [0, 0, 0] =
      Some (world_bad_magic\<lparr>env_home := Some ''/h/.swayimg'', cache_dir := Some ''/h/.swayimg''\<rparr>,
            \<lparr>width = 7, height = 9, data = 0\<rparr>, False) \<and>
    open_files (world_bad_magic\<lparr>env_home := Some ''/h/.swayimg'', cache_dir := Some ''/h/.swayimg''\<rparr>) = open_files world_bad_magic \<and>
    mem_free (world_bad_magic\<lparr>env_home := Some ''/h/.swayimg'', cache_dir := Some ''/h/.swayimg''\<rparr>) = mem_free world_bad_magic \<and>
    (\<forall>a. buffer_at (world_bad_magic\<lparr>env_home := Some ''/h/.swayimg'', cache_dir := Some ''/h/.swayimg''\<rparr>) a = buffer_at world_bad_magic a) \<and>
    fs (world_bad_magic\<lparr>env_home := Some ''/h/.swayimg'', cache_dir := Some ''/h/.swayimg''\<rparr>) = fs world_bad_magic \<and>
    free_space (world_bad_magic\<lparr>env_home := Some ''/h/.swayimg'', cache_dir := Some ''/h/.swayimg''\<rparr>) = free_space world_bad_magic) \<and>
   (thumbnail_load world_short_payload blank_pixmap ''/a.png'' [7, 8, 9] [0, 0, 0] =
      Some (world_short_payload\<lparr>env_home := Some ''/h/.swayimg'',
       cache_dir := Some ''/h/.swayimg'', heap := [None]\<rparr>,
            \<lparr>width = 2, height = 1, data = 1\<rparr>, False) \<and>
    open_files (world_short_payload\<lparr>env_home := Some ''/h/.swayimg'',
       cache_dir := Some ''/h/.swayimg'', heap := [None]\<rparr>) = open_files world_short_payload \<and>
    mem_free (world_short_payload\<lparr>env_home := Some ''/h/.swayimg'',
       cache_dir := Some ''/h/.swayimg'', heap := [None]\<rparr>) = mem_free world_short_payload \<and>
    (\<forall>a. buffer_at (world_short_payload\<lparr>env_home := Some ''/h/.swayimg'',
       cache_dir := Some ''/h/.swayimg'', heap := [None]\<rparr>) a = buffer_at world_short_payload a) \<and>
    fs (world_short_payload\<lparr>env_home := Some ''/h/.swayimg'',
       cache_dir := Some ''/h/.swayimg'', heap := [None]\<rparr>) = fs world_short_payload \<and>
    free_space (world_short_payload\<lparr>env_home := Some ''/h/.swayimg'',
       cache_dir := Some ''/h/.swayimg'', heap := [None]\<rparr>) = free_space world_short_payload \<and>
    buffer_at (world_short_payload\<lparr>env_home := Some ''/h/.swayimg'',
       cache_dir := Some ''/h/.swayimg'', heap := [None]\<rparr>) (length (heap world_short_payload) + 1) = None)"
  using load_failure_state [of world_bad_magic blank_pixmap "''/a.png''" "[7, 8, 9]" "[0, 0, 0]"]
    load_failure_state [of world_short_payload blank_pixmap "''/a.png''" "[7, 8, 9]" "[0, 0, 0]"]
  unfolding load_bad_magic load_short_payload
  by (auto simp: buffer_at_def world_short_payload_def)

text \<open>
  The claim as stated fails in two ways. With the magic \<^verbatim>\<open>P5\<close> in the cache file the
  load returns \<^verbatim>\<open>false\<close> and the width of the caller's pixel map has changed from
  \<open>0\<close> to \<open>7\<close>. With a valid header and half of the payload the load returns
  \<^verbatim>\<open>false\<close> and the caller's pixel map, whose \<^verbatim>\<open>data\<close> was null, has the dimensions
  of the header and a \<^verbatim>\<open>data\<close> pointer to the freed buffer.
\<close>

theorem load_failure_changes_pixmap:
  "(thumbnail_load world_bad_magic blank_pixmap ''/a.png'' [7, 8, 9] [0, 0, 0] =
      Some (world_bad_magic\<lparr>env_home := Some ''/h/.swayimg'', cache_dir := Some ''/h/.swayimg''\<rparr>,
            \<lparr>width = 7, height = 9, data = 0\<rparr>, False) \<and>
    width \<lparr>width = 7, height = 9, data = 0\<rparr> \<noteq> width blank_pixmap) \<and>
   (thumbnail_load world_short_payload blank_pixmap ''/a.png'' [7, 8, 9] [0, 0, 0] =
      Some (world_short_payload\<lparr>env_home := Some ''/h/.swayimg'',
       cache_dir := Some ''/h/.swayimg'', heap := [None]\<rparr>,
            \<lparr>width = 2, height = 1, data = 1\<rparr>, False) \<and>
    data \<lparr>width = 2, height = 1, data = 1\<rparr> \<noteq> data blank_pixmap \<and>
    buffer_at (world_short_payload\<lparr>env_home := Some ''/h/.swayimg'',
       cache_dir := Some ''/h/.swayimg'', heap := [None]\<rparr>)
      (data \<lparr>width = 2, height = 1, data = 1\<rparr>) = None)"
  using load_bad_magic load_short_payload by (simp add: blank_pixmap_def buffer_at_def)

subsection \<open>The dimensions of a loaded pixel map\<close>

lemma load_stream_True:
  assumes "load_stream w thumb params uninit fp = Some (w', thumb', True)"
  obtains header thumb1 fp1 where
    "fscanf_header fp thumb = (3, header, thumb1, fp1)"
    "thumb' = \<lparr>width = width thumb1, height = height thumb1, data = length (heap w) + 1\<rparr>"
proof -
  obtain cnt header thumb1 fp1 where sc: "fscanf_header fp thumb = (cnt, header, thumb1, fp1)"
    by (cases "fscanf_header fp thumb") auto
  from sc show thesis
  proof (cases rule: load_stream_cases [where params = params and uninit = uninit and w = w])
    case rejected
    with assms show ?thesis by simp
  next
    case (short w4 thumb2 buf)
    with assms show ?thesis by simp
  next
    case (loaded w4 thumb2 buf fp5)
    from assms loaded(6) have "thumb' = thumb2"
      by simp
    with pixmap_create_True(1) [OF loaded(4)] sc loaded(1) show ?thesis
      by (intro that [of header thumb1 fp1]) simp_all
  qed
qed

text \<open>
  Claim C10. After a successful load the width and the height of the pixel map are the
  two numbers \<^verbatim>\<open>fscanf\<close> read from the header of the cache file. They are never
  compared with the parameters: with the same parameters, the same source and the cache
  file replaced by an entry whose header says \<open>wd\<close> by \<open>ht\<close> (any dimensions the
  memory allows, the embedded parameters unchanged), the load succeeds with a pixel map of
  \<open>wd\<close> by \<open>ht\<close>. So whatever \<^verbatim>\<open>thumb_width\<close> and \<^verbatim>\<open>thumb_height\<close> the
  parameters hold, a cache file can make the loaded pixel map differ from them.
\<close>

theorem loaded_dimensions_from_header:
  assumes "thumbnail_load w thumb source params uninit = Some (w', thumb', True)"
  shows "\<exists>p n header thumb1 fp1.
           snd (get_thumb_path w source) = Some p \<and> fs w p = Some n \<and>
           fscanf_header (stream_of n) thumb = (3, header, thumb1, fp1) \<and>
           width thumb' = width thumb1 \<and> height thumb' = height thumb1 \<and>
           (\<forall>wd ht. unat (wd * ht) < 2 ^ 32 \<and> unat wd * unat ht \<le> mem_free w \<longrightarrow>
              (\<exists>w''. thumbnail_load
                   (w\<lparr>fs := (fs w)(p \<mapsto> File (node_ctime n)
                      (entry_bytes wd ht params (replicate (unat (wd * ht)) 0)))\<rparr>)
                   thumb source params uninit =
                 Some (w'', \<lparr>width = wd, height = ht, data = data thumb'\<rparr>, True)))"
proof -
  from assms obtain p ts tc n where
    p: "snd (get_thumb_path w source) = Some p" and ts: "stat w source = Some ts"
    and tc: "stat w p = Some tc" and le: "ts \<le> tc" and op: "open_files w < max_open w"
    and n: "fs w p = Some n"
    and ls: "load_stream ((fst (get_thumb_path w source))\<lparr>open_files := open_files w + 1\<rparr>)
       thumb params uninit (stream_of n) = Some (w', thumb', True)"
    by (rule thumbnail_load_True)
  from ls obtain header thumb1 fp1 where
    sc: "fscanf_header (stream_of n) thumb = (3, header, thumb1, fp1)"
    and t': "thumb' = \<lparr>width = width thumb1, height = height thumb1, data = length (heap w) + 1\<rparr>"
    by (rule load_stream_True) simp
  have ctime: "node_ctime n = tc"
    using tc n by (simp add: stat_def)
  have other: "\<exists>w''. thumbnail_load
                   (w\<lparr>fs := (fs w)(p \<mapsto> File (node_ctime n)
                      (entry_bytes wd ht params (replicate (unat (wd * ht)) 0)))\<rparr>)
                   thumb source params uninit =
                 Some (w'', \<lparr>width = wd, height = ht, data = data thumb'\<rparr>, True)"
    if small: "unat (wd * ht) < 2 ^ 32" and mem: "unat wd * unat ht \<le> mem_free w" for wd ht
  proof -
    define f where "f = (fs w)(p \<mapsto> File tc (entry_bytes wd ht params (replicate (unat (wd * ht)) 0)))"
    have p2: "snd (get_thumb_path (w\<lparr>fs := f\<rparr>) source) = Some p"
      by (simp add: get_thumb_path_fs p)
    have f2: "fs (w\<lparr>fs := f\<rparr>) p =
              Some (File tc (entry_bytes wd ht params (replicate (unat (wd * ht)) 0)))"
      by (simp add: f_def)
    obtain ts2 where ts2: "stat (w\<lparr>fs := f\<rparr>) source = Some ts2" and le2: "ts2 \<le> tc"
    proof (cases "source = p")
      case True
      then have "stat (w\<lparr>fs := f\<rparr>) source = Some tc"
        by (simp add: stat_def f_def)
      then show ?thesis
        by (rule that) simp
    next
      case False
      then have "stat (w\<lparr>fs := f\<rparr>) source = Some ts"
        using ts by (simp add: stat_def f_def)
      then show ?thesis
        using le by (rule that)
    qed
    have "thumbnail_load (w\<lparr>fs := f\<rparr>) thumb source params uninit =
       Some ((fst (get_thumb_path (w\<lparr>fs := f\<rparr>) source))\<lparr>heap := heap (w\<lparr>fs := f\<rparr>) @
                [Some (map opaque (replicate (unat (wd * ht)) 0) @
                       replicate (unat wd * unat ht - unat (wd * ht)) 0)],
              mem_free := mem_free (w\<lparr>fs := f\<rparr>) - unat wd * unat ht\<rparr>,
           \<lparr>width = wd, height = ht, data = length (heap (w\<lparr>fs := f\<rparr>)) + 1\<rparr>, True)"
      using p2 ts2 f2 le2 _ small
    proof (rule thumbnail_load_entry)
      show "open_files (w\<lparr>fs := f\<rparr>) < max_open (w\<lparr>fs := f\<rparr>)"
        using op by simp
      show "unat wd * unat ht \<le> mem_free (w\<lparr>fs := f\<rparr>)"
        using mem by simp
      show "length (replicate (unat (wd * ht)) (0 :: argb_t)) = unat (wd * ht)"
        by simp
    qed
    then show ?thesis
      unfolding ctime f_def t' by simp
  qed
  show ?thesis
    using p n sc t' other
    by (intro exI [of _ p] exI [of _ n] exI [of _ header] exI [of _ thumb1] exI [of _ fp1]) simp
qed


theorem loaded_dimensions_from_header_witness:
  "thumbnail_load world_cached \<lparr>width = 0, height = 0, data = 0\<rparr> ''/a.png'' [7, 8, 9] [0, 0, 0] =
     Some (world_loaded, \<lparr>width = 2, height = 1, data = 2\<rparr>, True) \<and>
   (\<exists>w''. thumbnail_load
        (world_cached\<lparr>fs := (fs world_cached)(''/h/.swayimg/a.png'' \<mapsto>
            File 10 (entry_bytes 7 9 [7, 8, 9] (replicate 63 0)))\<rparr>)
        \<lparr>width = 0, height = 0, data = 0\<rparr> ''/a.png'' [7, 8, 9] [0, 0, 0] =
      Some (w'', \<lparr>width = 7, height = 9, data = 2\<rparr>, True))"
proof -
  from loaded_dimensions_from_header [OF load_example] obtain p n where
    p: "snd (get_thumb_path world_cached ''/a.png'') = Some p" and n: "fs world_cached p = Some n"
    and all: "\<forall>wd ht. unat (wd * ht) < 2 ^ 32 \<and> unat wd * unat ht \<le> mem_free world_cached \<longrightarrow>
              (\<exists>w''. thumbnail_load
                   (world_cached\<lparr>fs := (fs world_cached)(p \<mapsto> File (node_ctime n)
                      (entry_bytes wd ht [7, 8, 9] (replicate (unat (wd * ht)) 0)))\<rparr>)
                   \<lparr>width = 0, height = 0, data = 0\<rparr> ''/a.png'' [7, 8, 9] [0, 0, 0] =
                 Some (w'', \<lparr>width = wd, height = ht,
                             data = data \<lparr>width = 2, height = 1, data = 2\<rparr>\<rparr>, True))"
    by (elim exE conjE)
  from p have p': "p = ''/h/.swayimg/a.png''"
    by (simp add: cache_path_example)
  from n have n': "node_ctime n = 10"
    by (auto simp: p' world_cached_def)
  have "unat (7 * 9 :: size_t) < 2 ^ 32 \<and> unat (7 :: size_t) * unat (9 :: size_t) \<le> mem_free world_cached"
    by (simp add: world_cached_def)
  with all have "\<exists>w''. thumbnail_load
                   (world_cached\<lparr>fs := (fs world_cached)(p \<mapsto> File (node_ctime n)
                      (entry_bytes 7 9 [7, 8, 9] (replicate (unat (7 * 9 :: size_t)) 0)))\<rparr>)
                   \<lparr>width = 0, height = 0, data = 0\<rparr> ''/a.png'' [7, 8, 9] [0, 0, 0] =
                 Some (w'', \<lparr>width = 7, height = 9,
                             data = data \<lparr>width = 2, height = 1, data = 2\<rparr>\<rparr>, True)"
    by blast
  then have "\<exists>w''. thumbnail_load
        (world_cached\<lparr>fs := (fs world_cached)(''/h/.swayimg/a.png'' \<mapsto>
            File 10 (entry_bytes 7 9 [7, 8, 9] (replicate 63 0)))\<rparr>)
        \<lparr>width = 0, height = 0, data = 0\<rparr> ''/a.png'' [7, 8, 9] [0, 0, 0] =
      Some (w'', \<lparr>width = 7, height = 9, data = 2\<rparr>, True)"
    by (simp add: p' n')
  with load_example show ?thesis
    by (rule conjI)
qed

subsection \<open>Failures of the save\<close>

lemma save_pixels_None:
  assumes "\<not> (unat n < 2 ^ 32 \<and> unat n \<le> length buf)"
  shows "save_pixels w fp n buf 0 = None"
proof (cases "save_pixels w fp n buf 0")
  case None
  then show ?thesis .
next
  case (Some w')
  from save_pixels_Some [OF Some] assms show ?thesis
    by (cases "unat n = 0") auto
qed

text \<open>
  Claim C7, as amended. The theorem gives the result of \<^verbatim>\<open>thumbnail_save\<close> for every
  input. It returns \<^verbatim>\<open>false\<close> when the path does not resolve, when the directories
  cannot be made, and when the file cannot be created. When these three steps succeed,
  the pixel loop decides: if the product of the dimensions (as the \<^verbatim>\<open>size_t\<close> the
  code computes) is below \<open>2^32\<close> and within the pixel buffer, the call returns
  \<^verbatim>\<open>true\<close>; otherwise it has no result (with \<open>2^32\<close> pixels or more the 32-bit
  counter never reaches the bound). No write is checked: after a return of \<^verbatim>\<open>true\<close>
  the file holds the first \<open>k\<close> bytes of the entry, where \<open>k\<close> is at least the space
  that was free, so the entry is complete when there was room for it and cut short
  otherwise.
\<close>

theorem save_outcome:
  "thumbnail_save w thumb source params =
     (case snd (get_thumb_path w source) of
        None \<Rightarrow> Some (fst (get_thumb_path w source), False)
      | Some p \<Rightarrow>
          if \<not> snd (make_directories (fst (get_thumb_path w source)) p)
          then Some (fst (make_directories (fst (get_thumb_path w source)) p), False)
          else if snd (fopen_wb (fst (make_directories (fst (get_thumb_path w source)) p)) p) = None
          then Some (fst (make_directories (fst (get_thumb_path w source)) p), False)
          else if unat (width thumb * height thumb) < 2 ^ 32 \<and>
                  unat (width thumb * height thumb) \<le> length (pixels_of w thumb)
          then Some (fclose (fwrite
                       (fst (fopen_wb (fst (make_directories (fst (get_thumb_path w source)) p)) p)) p
                       (entry_bytes (width thumb) (height thumb) params
                          (take (unat (width thumb * height thumb)) (pixels_of w thumb)))), True)
          else None) \<and>
   (\<forall>w'. thumbnail_save w thumb source params = Some (w', True) \<longrightarrow>
      (\<exists>p k. snd (get_thumb_path w source) = Some p \<and> free_space w \<le> k \<and>
         fs w' p = Some (File (now w)
           (take k (entry_bytes (width thumb) (height thumb) params
              (take (unat (width thumb * height thumb)) (pixels_of w thumb)))))))"
proof
  show "thumbnail_save w thumb source params =
     (case snd (get_thumb_path w source) of
        None \<Rightarrow> Some (fst (get_thumb_path w source), False)
      | Some p \<Rightarrow>
          if \<not> snd (make_directories (fst (get_thumb_path w source)) p)
          then Some (fst (make_directories (fst (get_thumb_path w source)) p), False)
          else if snd (fopen_wb (fst (make_directories (fst (get_thumb_path w source)) p)) p) = None
          then Some (fst (make_directories (fst (get_thumb_path w source)) p), False)
          else if unat (width thumb * height thumb) < 2 ^ 32 \<and>
                  unat (width thumb * height thumb) \<le> length (pixels_of w thumb)
          then Some (fclose (fwrite
                       (fst (fopen_wb (fst (make_directories (fst (get_thumb_path w source)) p)) p)) p
                       (entry_bytes (width thumb) (height thumb) params
                          (take (unat (width thumb * height thumb)) (pixels_of w thumb)))), True)
          else None)"
  proof (cases rule: thumbnail_save_cases [where w = w and source = source and thumb = thumb
          and params = params])
    case unresolved
    then show ?thesis by simp
  next
    case (no_directory p)
    then show ?thesis by simp
  next
    case (no_file p)
    then show ?thesis by simp
  next
    case (opened p w3)
    let ?n = "width thumb * height thumb"
    let ?hd = "header_bytes (width thumb) (height thumb) @ [0x23] @ params @ [0x0A]"
    show ?thesis
    proof (cases "unat ?n < 2 ^ 32 \<and> unat ?n \<le> length (pixels_of w thumb)")
      case True
      then have n: "unat ?n < 2 ^ 32" and l: "unat ?n \<le> length (pixels_of w thumb)"
        by simp_all
      from save_pixels_run [OF n l, of 0 w3 p ?hd]
      show ?thesis
        unfolding opened(4) using opened(1,2,3) True by (simp add: entry_bytes_def)
    next
      case False
      then have "save_pixels (fwrite w3 p ?hd) p ?n (pixels_of w thumb) 0 = None"
        by (rule save_pixels_None)
      then show ?thesis
        unfolding opened(4) using opened(1,2,3) False by simp
    qed
  qed
next
  show "\<forall>w'. thumbnail_save w thumb source params = Some (w', True) \<longrightarrow>
      (\<exists>p k. snd (get_thumb_path w source) = Some p \<and> free_space w \<le> k \<and>
         fs w' p = Some (File (now w)
           (take k (entry_bytes (width thumb) (height thumb) params
              (take (unat (width thumb * height thumb)) (pixels_of w thumb))))))"
  proof (intro allI impI)
    fix w'
    assume "thumbnail_save w thumb source params = Some (w', True)"
    then obtain p w3 where
      p: "snd (get_thumb_path w source) = Some p"
      and o: "fopen_wb (fst (make_directories (fst (get_thumb_path w source)) p)) p = (w3, Some p)"
      and w': "w' = fclose (fwrite w3 p (entry_bytes (width thumb) (height thumb) params
                    (take (unat (width thumb * height thumb)) (pixels_of w thumb))))"
      by (rule thumbnail_save_True)
    note f = fopen_wb_Some [OF o]
    have "fs w' p = Some (File (now w)
          (take (free_space w3) (entry_bytes (width thumb) (height thumb) params
                     (take (unat (width thumb * height thumb)) (pixels_of w thumb)))))"
      unfolding w' using fwrite_file [OF f(2)] f(8) by simp
    moreover have "free_space w \<le> free_space w3"
      using f(3) by simp
    ultimately show "\<exists>p k. snd (get_thumb_path w source) = Some p \<and> free_space w \<le> k \<and>
         fs w' p = Some (File (now w)
           (take k (entry_bytes (width thumb) (height thumb) params
              (take (unat (width thumb * height thumb)) (pixels_of w thumb)))))"
      using p by blast
  qed
qed


theorem save_outcome_witness:
  "thumbnail_save world_no_env example_pixmap ''/a.png'' [7, 8, 9] = Some (world_no_env, False) \<and>
   (\<exists>w'. thumbnail_save world_blocked example_pixmap ''/a.png'' [7, 8, 9] = Some (w', False)) \<and>
   (\<exists>w'. thumbnail_save (world_home\<lparr>max_open := 0\<rparr>) example_pixmap ''/a.png'' [7, 8, 9] =
          Some (w', False)) \<and>
   thumbnail_save world_home example_pixmap ''/a.png'' [7, 8, 9] = Some (world_saved, True) \<and>
   thumbnail_save world_home huge_pixmap ''/a.png'' [7, 8, 9] = None"
proof (intro conjI)
  show "thumbnail_save world_no_env example_pixmap ''/a.png'' [7, 8, 9] = Some (world_no_env, False)"
    using save_outcome [of world_no_env example_pixmap "''/a.png''" "[7, 8, 9]"]
    by (simp add: get_thumb_path_def world_no_env_def)
  show "\<exists>w'. thumbnail_save world_blocked example_pixmap ''/a.png'' [7, 8, 9] = Some (w', False)"
    using save_outcome [of world_blocked example_pixmap "''/a.png''" "[7, 8, 9]"]
    by (simp add: get_thumb_path_def world_blocked_def world_home_def PATH_MAX_def Let_def
        make_directories_def mkdir_def parent_is_dir_def dirname_def)
  show "\<exists>w'. thumbnail_save (world_home\<lparr>max_open := 0\<rparr>) example_pixmap ''/a.png'' [7, 8, 9] =
          Some (w', False)"
    using save_outcome [of "world_home\<lparr>max_open := 0\<rparr>" example_pixmap "''/a.png''" "[7, 8, 9]"]
    by (simp add: get_thumb_path_def world_home_def PATH_MAX_def Let_def
        make_directories_def mkdir_def parent_is_dir_def dirname_def fopen_wb_def)
  show "thumbnail_save world_home example_pixmap ''/a.png'' [7, 8, 9] = Some (world_saved, True)"
    by (rule save_example)
  have "\<not> unat (width huge_pixmap * height huge_pixmap) < 2 ^ 32"
    by (simp add: huge_pixmap_def)
  then show "thumbnail_save world_home huge_pixmap ''/a.png'' [7, 8, 9] = None"
    using save_outcome [of world_home huge_pixmap "''/a.png''" "[7, 8, 9]"]
      save_path_example [of 1000] save_directories_example [of 1000] save_open_example [of 1000]
    by (simp add: world_home_def)
qed

text \<open>
  The claim as stated fails: with five bytes of free space the save returns
  \<^verbatim>\<open>true\<close> and the file holds five bytes of the header.
\<close>

theorem save_succeeds_with_truncated_file:
  "\<exists>w'. thumbnail_save (world_home\<lparr>free_space := 5\<rparr>) example_pixmap ''/a.png'' [7, 8, 9] =
         Some (w', True) \<and>
        fs w' ''/h/.swayimg/a.png'' = Some (File 20 [0x50, 0x36, 0x0A, 0x32, 0x20]) \<and>
        [0x50, 0x36, 0x0A, 0x32, 0x20] \<noteq> entry_bytes 2 1 [7, 8, 9] [0x80112233, 0xFF445566]"
  by (simp add: save_example_space entry_example)

subsection \<open>Round trip\<close>

lemma get_thumb_path_same_root:
  assumes "snd (get_thumb_path w s) = Some p"
    and "cache_dir w' = cache_dir (fst (get_thumb_path w s))"
  shows "get_thumb_path w' s = (w', Some p)"
proof -
  from assms(1) obtain d where d: "cache_root w = Some d"
    by (auto simp: get_thumb_path_result split: option.splits)
  with assms(2) have c: "cache_dir w' = Some d"
    by (simp add: get_thumb_path_cache_dir)
  then have "fst (get_thumb_path w' s) = w'"
    by (simp add: get_thumb_path_resolved)
  moreover have "snd (get_thumb_path w' s) = Some p"
    using assms(1) d c by (simp add: get_thumb_path_result cache_root_resolved)
  ultimately show ?thesis
    by (simp add: prod_eq_iff)
qed

lemma save_example_memory:
  "thumbnail_save (world_home\<lparr>mem_free := 0\<rparr>) example_pixmap ''/a.png'' [7, 8, 9] =
     Some (world_saved\<lparr>mem_free := 0\<rparr>, True)"
proof -
  have px: "pixels_of (world_home\<lparr>mem_free := 0\<rparr>) example_pixmap = [0x80112233, 0xFF445566]"
    by (simp add: pixels_of_def buffer_at_def world_home_def example_pixmap_def)
  have wh: "width example_pixmap = 2" "height example_pixmap = 1"
    by (simp_all add: example_pixmap_def)
  have g: "get_thumb_path (world_home\<lparr>mem_free := 0\<rparr>) ''/a.png'' =
     (world_home\<lparr>mem_free := 0, env_home := Some ''/h/.swayimg'',
        cache_dir := Some ''/h/.swayimg''\<rparr>, Some ''/h/.swayimg/a.png'')"
    by (simp add: get_thumb_path_def world_home_def PATH_MAX_def Let_def)
  have m: "make_directories (world_home\<lparr>mem_free := 0, env_home := Some ''/h/.swayimg'',
        cache_dir := Some ''/h/.swayimg''\<rparr>) ''/h/.swayimg/a.png'' =
     (world_home\<lparr>mem_free := 0, env_home := Some ''/h/.swayimg'',
        cache_dir := Some ''/h/.swayimg'',
        fs := [''/a.png'' \<mapsto> File 5 [1, 2, 3], ''/h'' \<mapsto> Dir 20, ''/h/.swayimg'' \<mapsto> Dir 20]\<rparr>,
      True)"
    by (simp add: make_directories_def mkdir_def parent_is_dir_def dirname_def world_home_def)
  have o: "fopen_wb (world_home\<lparr>mem_free := 0, env_home := Some ''/h/.swayimg'',
        cache_dir := Some ''/h/.swayimg'',
        fs := [''/a.png'' \<mapsto> File 5 [1, 2, 3], ''/h'' \<mapsto> Dir 20, ''/h/.swayimg'' \<mapsto> Dir 20]\<rparr>)
      ''/h/.swayimg/a.png'' =
     (world_home\<lparr>mem_free := 0, env_home := Some ''/h/.swayimg'',
        cache_dir := Some ''/h/.swayimg'',
        fs := [''/a.png'' \<mapsto> File 5 [1, 2, 3], ''/h'' \<mapsto> Dir 20, ''/h/.swayimg'' \<mapsto> Dir 20,
               ''/h/.swayimg/a.png'' \<mapsto> File 20 []],
        open_files := 1\<rparr>, Some ''/h/.swayimg/a.png'')"
    by (simp add: fopen_wb_def parent_is_dir_def dirname_def world_home_def)
  have "thumbnail_save (world_home\<lparr>mem_free := 0\<rparr>) example_pixmap ''/a.png'' [7, 8, 9] =
     Some (fclose (fwrite (world_home\<lparr>mem_free := 0, env_home := Some ''/h/.swayimg'',
        cache_dir := Some ''/h/.swayimg'',
        fs := [''/a.png'' \<mapsto> File 5 [1, 2, 3], ''/h'' \<mapsto> Dir 20, ''/h/.swayimg'' \<mapsto> Dir 20,
               ''/h/.swayimg/a.png'' \<mapsto> File 20 []],
        open_files := 1\<rparr>) ''/h/.swayimg/a.png''
        (entry_bytes (width example_pixmap) (height example_pixmap) [7, 8, 9]
           (take (unat (width example_pixmap * height example_pixmap))
              (pixels_of (world_home\<lparr>mem_free := 0\<rparr>) example_pixmap)))), True)"
    by (rule thumbnail_save_run) (simp_all add: g m o px wh)
  then have "thumbnail_save (world_home\<lparr>mem_free := 0\<rparr>) example_pixmap ''/a.png'' [7, 8, 9] =
     Some (fclose (fwrite (world_home\<lparr>mem_free := 0, env_home := Some ''/h/.swayimg'',
        cache_dir := Some ''/h/.swayimg'',
        fs := [''/a.png'' \<mapsto> File 5 [1, 2, 3], ''/h'' \<mapsto> Dir 20, ''/h/.swayimg'' \<mapsto> Dir 20,
               ''/h/.swayimg/a.png'' \<mapsto> File 20 []],
        open_files := 1\<rparr>) ''/h/.swayimg/a.png''
        [0x50, 0x36, 0x0A, 0x32, 0x20, 0x31, 0x0A, 0x32, 0x35, 0x35, 0x0A,
         0x23, 7, 8, 9, 0x0A, 0x11, 0x22, 0x33, 0x44, 0x55, 0x66]), True)"
    by (simp add: px wh entry_example)
  then show ?thesis
    by (simp add: fwrite_def fclose_def world_home_def world_saved_def)
qed

lemma load_without_memory:
  "thumbnail_load (world_saved\<lparr>mem_free := 0\<rparr>) blank_pixmap ''/a.png'' [7, 8, 9] [0, 0, 0] =
     Some (world_saved\<lparr>mem_free := 0\<rparr>, \<lparr>width = 2, height = 1, data = 0\<rparr>, False)"
  by (simp add: thumbnail_load_def load_stream_def scan_example get_thumb_path_def world_saved_def
      world_home_def blank_pixmap_def PATH_MAX_def stat_def fopen_rb_def Let_def
      pixmap_create_def fclose_def)

lemma load_after_full_disk:
  "thumbnail_load world_truncated blank_pixmap ''/a.png'' [7, 8, 9] [0, 0, 0] =
     Some (world_truncated, \<lparr>width = 2, height = 0, data = 0\<rparr>, False)"
  by (simp add: thumbnail_load_def load_stream_def get_thumb_path_def world_home_def
      world_truncated_def blank_pixmap_def PATH_MAX_def stat_def fopen_rb_def Let_def fclose_def
      fscanf_header_def scan_s2_def scan_zu_def isspace_def isdigit_def digits_value_def)

lemma save_on_full_disk:
  "thumbnail_save (world_home\<lparr>free_space := 5\<rparr>) example_pixmap ''/a.png'' [7, 8, 9] =
     Some (world_truncated, True)"
  using save_example_space [of 5] by (simp add: world_truncated_def)

text \<open>
  Claim C3, as amended. \<^verbatim>\<open>thumbnail_save\<close> has returned \<^verbatim>\<open>true\<close>, the file
  system had room for the whole entry, the source file exists and its status-change time
  is not later than the time of the save, and there is memory for the pixel buffer. Then
  \<^verbatim>\<open>thumbnail_load\<close> with the same parameters succeeds, the pixel map has the saved
  width and height, and its pixels are the saved pixels: the red, green and blue bytes of
  each are what was saved and the alpha byte, which is not persisted, is \<open>0xff\<close>
  (followed by zeros where the product of the dimensions does not fit 64 bits, so that
  fewer pixels were written than allocated).
\<close>

theorem save_then_load:
  assumes save: "thumbnail_save w thumb source params = Some (w1, True)"
    and room: "length (entry_bytes (width thumb) (height thumb) params
                 (take (unat (width thumb * height thumb)) (pixels_of w thumb))) \<le> free_space w"
    and src: "stat w1 source = Some ts" and fresh: "ts \<le> now w"
    and mem: "unat (width thumb) * unat (height thumb) \<le> mem_free w1"
  shows "\<exists>w2 thumb2.
           thumbnail_load w1 thumb0 source params uninit = Some (w2, thumb2, True) \<and>
           width thumb2 = width thumb \<and> height thumb2 = height thumb \<and>
           pixels_of w2 thumb2 =
             map opaque (take (unat (width thumb * height thumb)) (pixels_of w thumb)) @
             replicate (unat (width thumb) * unat (height thumb) -
                        unat (width thumb * height thumb)) 0"
proof -
  let ?n = "unat (width thumb * height thumb)"
  let ?pxs = "take ?n (pixels_of w thumb)"
  let ?entry = "entry_bytes (width thumb) (height thumb) params ?pxs"
  let ?wa = "fst (get_thumb_path w source)"
  from save obtain p w3 where p: "snd (get_thumb_path w source) = Some p"
    and o: "fopen_wb (fst (make_directories ?wa p)) p = (w3, Some p)"
    and n: "?n < 2 ^ 32" and l: "?n \<le> length (pixels_of w thumb)"
    and w1: "w1 = fclose (fwrite w3 p ?entry)"
    by (rule thumbnail_save_True)
  note f = fopen_wb_Some [OF o]
  have cd: "cache_dir w1 = cache_dir ?wa"
    unfolding w1 using f(10) by simp
  have g1: "get_thumb_path w1 source = (w1, Some p)"
    using p cd by (rule get_thumb_path_same_root)
  have "free_space w \<le> free_space w3"
    using f(3) by simp
  with room have "take (free_space w3) ?entry = ?entry"
    by simp
  then have fs1: "fs w1 p = Some (File (now w) ?entry)"
    unfolding w1 using fwrite_file [OF f(2), of ?entry] f(8) by simp
  have len: "length ?pxs = ?n"
    using l by simp
  have files: "open_files w1 < max_open w1"
    unfolding w1 using f(4,5,9) by simp
  have "thumbnail_load w1 thumb0 source params uninit =
     Some ((fst (get_thumb_path w1 source))\<lparr>heap := heap w1 @
                [Some (map opaque ?pxs @
                   replicate (unat (width thumb) * unat (height thumb) - ?n) 0)],
              mem_free := mem_free w1 - unat (width thumb) * unat (height thumb)\<rparr>,
           \<lparr>width = width thumb, height = height thumb, data = length (heap w1) + 1\<rparr>, True)"
    using _ src fs1 fresh files n mem len
  proof (rule thumbnail_load_entry)
    show "snd (get_thumb_path w1 source) = Some p"
      by (simp add: g1)
  qed
  then show ?thesis
    by (simp add: pixels_of_def buffer_at_def)
qed

theorem save_then_load_witness:
  "thumbnail_save world_home example_pixmap ''/a.png'' [7, 8, 9] = Some (world_saved, True) \<and>
   length (entry_bytes (width example_pixmap) (height example_pixmap) [7, 8, 9]
      (take (unat (width example_pixmap * height example_pixmap))
         (pixels_of world_home example_pixmap))) \<le> free_space world_home \<and>
   stat world_saved ''/a.png'' = Some 5 \<and> 5 \<le> now world_home \<and>
   unat (width example_pixmap) * unat (height example_pixmap) \<le> mem_free world_saved \<and>
   (\<exists>w2 thumb2.
      thumbnail_load world_saved blank_pixmap ''/a.png'' [7, 8, 9] [0, 0, 0] = Some (w2, thumb2, True) \<and>
      width thumb2 = 2 \<and> height thumb2 = 1 \<and>
      pixels_of w2 thumb2 = [opaque 0x80112233, opaque 0xFF445566])"
proof -
  have px: "pixels_of world_home example_pixmap = [0x80112233, 0xFF445566]"
    by (simp add: pixels_of_def buffer_at_def world_home_def example_pixmap_def)
  have wh: "width example_pixmap = 2" "height example_pixmap = 1"
    by (simp_all add: example_pixmap_def)
  have room: "length (entry_bytes (width example_pixmap) (height example_pixmap) [7, 8, 9]
      (take (unat (width example_pixmap * height example_pixmap))
         (pixels_of world_home example_pixmap))) \<le> free_space world_home"
    by (simp add: px wh entry_example) (simp add: world_home_def)
  have src: "stat world_saved ''/a.png'' = Some 5"
    by (simp add: stat_def world_saved_def)
  have fresh: "5 \<le> now world_home"
    by (simp add: world_home_def)
  have mem: "unat (width example_pixmap) * unat (height example_pixmap) \<le> mem_free world_saved"
    by (simp add: wh world_saved_def world_home_def)
  from save_then_load [OF save_example room src fresh mem, of blank_pixmap "[0, 0, 0]"]
  have "\<exists>w2 thumb2.
      thumbnail_load world_saved blank_pixmap ''/a.png'' [7, 8, 9] [0, 0, 0] = Some (w2, thumb2, True) \<and>
      width thumb2 = 2 \<and> height thumb2 = 1 \<and>
      pixels_of w2 thumb2 = [opaque 0x80112233, opaque 0xFF445566]"
    by (simp add: px wh)
  with save_example room src fresh mem show ?thesis
    by (intro conjI)
qed

text \<open>
  The claim as stated fails: the save does not check its writes. On a file system with
  room for five bytes the save of the example pixel map returns \<^verbatim>\<open>true\<close> and leaves
  the cache file \<^verbatim>\<open>P6\<close>, newline, \<^verbatim>\<open>2\<close>, space; the load that follows, with the
  same parameters and the source untouched, reads two of the three header fields and
  returns \<^verbatim>\<open>false\<close>. And where the whole entry was written but no memory is free
  for the pixel buffer, the load that follows the successful save returns
  \<^verbatim>\<open>false\<close> as well.
\<close>

theorem save_true_then_load_misses:
  "(thumbnail_save (world_home\<lparr>free_space := 5\<rparr>) example_pixmap ''/a.png'' [7, 8, 9] =
      Some (world_truncated, True) \<and>
    stat world_truncated ''/a.png'' = Some 5 \<and>
    5 \<le> now (world_home\<lparr>free_space := 5\<rparr>) \<and>
    unat (width example_pixmap) * unat (height example_pixmap) \<le> mem_free world_truncated \<and>
    thumbnail_load world_truncated blank_pixmap ''/a.png'' [7, 8, 9] [0, 0, 0] =
      Some (world_truncated, \<lparr>width = 2, height = 0, data = 0\<rparr>, False)) \<and>
   (thumbnail_save (world_home\<lparr>mem_free := 0\<rparr>) example_pixmap ''/a.png'' [7, 8, 9] =
      Some (world_saved\<lparr>mem_free := 0\<rparr>, True) \<and>
    length (entry_bytes 2 1 [7, 8, 9] [0x80112233, 0xFF445566]) \<le>
      free_space (world_home\<lparr>mem_free := 0\<rparr>) \<and>
    stat (world_saved\<lparr>mem_free := 0\<rparr>) ''/a.png'' = Some 5 \<and>
    5 \<le> now (world_home\<lparr>mem_free := 0\<rparr>) \<and>
    thumbnail_load (world_saved\<lparr>mem_free := 0\<rparr>) blank_pixmap ''/a.png'' [7, 8, 9] [0, 0, 0] =
      Some (world_saved\<lparr>mem_free := 0\<rparr>, \<lparr>width = 2, height = 1, data = 0\<rparr>, False))"
  unfolding load_after_full_disk load_without_memory save_example_memory save_on_full_disk
    entry_example
  by (simp add: stat_def world_home_def world_saved_def world_truncated_def example_pixmap_def)

subsection \<open>No cache root\<close>

lemma get_thumb_path_unset:
  "env_xdg_cache_home w = None \<Longrightarrow> env_home w = None \<Longrightarrow> cache_dir w = None \<Longrightarrow>
   get_thumb_path w source = (w, None)"
  by (simp add: get_thumb_path_def)

text \<open>
  Claim C8. In a process where neither \<^verbatim>\<open>XDG_CACHE_HOME\<close> nor \<^verbatim>\<open>HOME\<close> is set
  (so the static cache root is still \<^verbatim>\<open>NULL\<close>), \<^verbatim>\<open>thumbnail_save\<close> and
  \<^verbatim>\<open>thumbnail_load\<close> both return \<^verbatim>\<open>false\<close>, and they leave the world as it was:
  no file is created, the pixel map is untouched, and the static variable stays
  \<^verbatim>\<open>NULL\<close>, so the same holds for every later call.
\<close>

theorem unset_roots_fail:
  assumes "env_xdg_cache_home w = None" and "env_home w = None" and "cache_dir w = None"
  shows "thumbnail_save w thumb source params = Some (w, False) \<and>
         thumbnail_load w thumb source params uninit = Some (w, thumb, False)"
  using assms
  by (simp add: thumbnail_save_def thumbnail_load_def get_thumb_path_unset)

theorem unset_roots_fail_witness:
  "env_xdg_cache_home world_no_env = None \<and> env_home world_no_env = None \<and>
   cache_dir world_no_env = None \<and>
   thumbnail_save world_no_env example_pixmap ''/a.png'' [7, 8, 9] = Some (world_no_env, False) \<and>
   thumbnail_load world_no_env example_pixmap ''/a.png'' [7, 8, 9] [0, 0, 0] =
     Some (world_no_env, example_pixmap, False)"
  using unset_roots_fail [of world_no_env example_pixmap "''/a.png''" "[7, 8, 9]" "[0, 0, 0]"]
  by (simp add: world_no_env_def)

subsection \<open>The choice of the resampler\<close>

text \<open>
  Claim C9. \<^verbatim>\<open>thumbnail_create\<close> allocates the destination with the dimensions
  \<^verbatim>\<open>thumb_width\<close> and \<^verbatim>\<open>thumb_height\<close> of the parameters; where the allocation fails
  it returns \<^verbatim>\<open>false\<close> and nothing has changed. Otherwise it calls the resampler on the
  first frame and the new pixel map, with the offsets, the scale and the alpha flag, and
  returns \<^verbatim>\<open>true\<close>. The algorithm is nearest-neighbour when \<^verbatim>\<open>antialias\<close> is
  unset; with it set, bicubic when \<^verbatim>\<open>scale > 1.0\<close> holds and averaging when it does
  not (a scale of at most one, or one that is not a number).
\<close>

theorem thumbnail_create_selects:
  assumes "frames img = full # others"
  shows "\<exists>w1 thumb1 created.
     pixmap_create w thumb (thumb_width params) (thumb_height params) = (w1, thumb1, created) \<and>
     created = (unat (thumb_width params) * unat (thumb_height params) \<le> mem_free w) \<and>
     (\<not> created \<longrightarrow> thumbnail_create resample w thumb img params = Some (w, thumb, False)) \<and>
     (created \<longrightarrow>
        width thumb1 = thumb_width params \<and> height thumb1 = thumb_height params \<and>
        length (pixels_of w1 thumb1) = unat (thumb_width params) * unat (thumb_height params) \<and>
        (\<not> antialias params \<longrightarrow>
           thumbnail_create resample w thumb img params =
             Some (resample pixmap_nearest w1 full thumb1 (offset_x params) (offset_y params)
                     (scale params) (alpha img), thumb1, True)) \<and>
        (antialias params \<and> fp_less (Finite 1) (scale params) \<longrightarrow>
           thumbnail_create resample w thumb img params =
             Some (resample pixmap_bicubic w1 full thumb1 (offset_x params) (offset_y params)
                     (scale params) (alpha img), thumb1, True)) \<and>
        (antialias params \<and> \<not> fp_less (Finite 1) (scale params) \<longrightarrow>
           thumbnail_create resample w thumb img params =
             Some (resample pixmap_average w1 full thumb1 (offset_x params) (offset_y params)
                     (scale params) (alpha img), thumb1, True)))"
proof (cases "unat (thumb_width params) * unat (thumb_height params) \<le> mem_free w")
  case True
  obtain w1 thumb1
    where c: "pixmap_create w thumb (thumb_width params) (thumb_height params) = (w1, thumb1, True)"
    using True by (simp add: pixmap_create_def Let_def)
  note f = pixmap_create_True [OF c]
  show ?thesis
    using True assms f(5) by (auto simp: c thumbnail_create_def f(1))
next
  case False
  then have c: "pixmap_create w thumb (thumb_width params) (thumb_height params) = (w, thumb, False)"
    by (simp add: pixmap_create_def Let_def)
  show ?thesis
    using False assms by (auto simp: c thumbnail_create_def)
qed

theorem thumbnail_create_selects_witness:
  "frames example_image = example_pixmap # [] \<and>
   pixels_of (fst (the (thumbnail_create marking_resampler world_home blank_pixmap example_image
        (example_params False (Finite 2))))) \<lparr>width = 1, height = 1, data = 2\<rparr> = [1] \<and>
   pixels_of (fst (the (thumbnail_create marking_resampler world_home blank_pixmap example_image
        (example_params True (Finite 2))))) \<lparr>width = 1, height = 1, data = 2\<rparr> = [3] \<and>
   pixels_of (fst (the (thumbnail_create marking_resampler world_home blank_pixmap example_image
        (example_params True (Finite 1))))) \<lparr>width = 1, height = 1, data = 2\<rparr> = [2] \<and>
   pixels_of (fst (the (thumbnail_create marking_resampler world_home blank_pixmap example_image
        (example_params True NaN)))) \<lparr>width = 1, height = 1, data = 2\<rparr> = [2] \<and>
   thumbnail_create marking_resampler (world_home\<lparr>mem_free := 0\<rparr>) blank_pixmap example_image
       (example_params True (Finite 2)) =
     Some (world_home\<lparr>mem_free := 0\<rparr>, blank_pixmap, False)"
proof -
  have fr: "frames example_image = example_pixmap # []"
    by (simp add: example_image_def)
  have pc: "pixmap_create world_home blank_pixmap 1 1 =
     (world_home\<lparr>heap := [Some [0x80112233, 0xFF445566], Some [0]], mem_free := 99\<rparr>,
      \<lparr>width = 1, height = 1, data = 2\<rparr>, True)"
    by (simp add: pixmap_create_def world_home_def Let_def)
  have pn: "pixmap_create (world_home\<lparr>mem_free := 0\<rparr>) blank_pixmap 1 1 =
     (world_home\<lparr>mem_free := 0\<rparr>, blank_pixmap, False)"
    by (simp add: pixmap_create_def world_home_def Let_def)
  have m: "pixels_of (marking_resampler scaler
       (world_home\<lparr>heap := [Some [0x80112233, 0xFF445566], Some [0]], mem_free := 99\<rparr>)
       example_pixmap \<lparr>width = 1, height = 1, data = 2\<rparr> 0 0 s True)
       \<lparr>width = 1, height = 1, data = 2\<rparr> =
     [case scaler of pixmap_nearest \<Rightarrow> 1 | pixmap_average \<Rightarrow> 2 | pixmap_bicubic \<Rightarrow> 3]" for scaler s
    by (simp add: marking_resampler_def store_pixels_def pixels_of_def buffer_at_def world_home_def)
  have p: "thumb_width (example_params aa s) = 1" "thumb_height (example_params aa s) = 1"
    "offset_x (example_params aa s) = 0" "offset_y (example_params aa s) = 0"
    "antialias (example_params aa s) = aa" "scale (example_params aa s) = s" for aa s
    by (simp_all add: example_params_def)
  have al: "alpha example_image = True"
    by (simp add: example_image_def)
  from thumbnail_create_selects [OF fr, of world_home blank_pixmap "example_params False (Finite 2)"
      marking_resampler]
  have 1: "pixels_of (fst (the (thumbnail_create marking_resampler world_home blank_pixmap example_image
        (example_params False (Finite 2))))) \<lparr>width = 1, height = 1, data = 2\<rparr> = [1]"
    unfolding p pc al by (auto simp: m)
  from thumbnail_create_selects [OF fr, of world_home blank_pixmap "example_params True (Finite 2)"
      marking_resampler]
  have 2: "pixels_of (fst (the (thumbnail_create marking_resampler world_home blank_pixmap example_image
        (example_params True (Finite 2))))) \<lparr>width = 1, height = 1, data = 2\<rparr> = [3]"
    unfolding p pc al by (auto simp: m)
  from thumbnail_create_selects [OF fr, of world_home blank_pixmap "example_params True (Finite 1)"
      marking_resampler]
  have 3: "pixels_of (fst (the (thumbnail_create marking_resampler world_home blank_pixmap example_image
        (example_params True (Finite 1))))) \<lparr>width = 1, height = 1, data = 2\<rparr> = [2]"
    unfolding p pc al by (auto simp: m)
  from thumbnail_create_selects [OF fr, of world_home blank_pixmap "example_params True NaN"
      marking_resampler]
  have 4: "pixels_of (fst (the (thumbnail_create marking_resampler world_home blank_pixmap example_image
        (example_params True NaN)))) \<lparr>width = 1, height = 1, data = 2\<rparr> = [2]"
    unfolding p pc al by (auto simp: m)
  from thumbnail_create_selects [OF fr, of "world_home\<lparr>mem_free := 0\<rparr>" blank_pixmap
      "example_params True (Finite 2)" marking_resampler]
  have 5: "thumbnail_create marking_resampler (world_home\<lparr>mem_free := 0\<rparr>) blank_pixmap example_image
       (example_params True (Finite 2)) =
     Some (world_home\<lparr>mem_free := 0\<rparr>, blank_pixmap, False)"
    unfolding p pn by auto
  from fr 1 2 3 4 5 show ?thesis
    by (intro conjI)
qed

subsection \<open>Rounding\<close>

text \<open>
  The exponent function is correct, rounding to nearest moves a number by at most half a
  unit in the last place, and in the normal range that is a relative error of at most
  \<open>2^-p\<close>.
\<close>

lemma bitlen_powi:
  assumes "0 < a"
  shows "(2::rat) powi (bitlen a - 1) \<le> of_int a" and "of_int a < (2::rat) powi (bitlen a)"
proof -
  from assms have b: "2 ^ nat (bitlen a - 1) \<le> a" "a < 2 ^ nat (bitlen a)"
    using bitlen_bounds [of a] by simp_all
  have p: "0 < bitlen a"
  proof (rule ccontr)
    assume "\<not> 0 < bitlen a"
    then have "nat (bitlen a) = 0"
      by simp
    with b(2) assms show False
      by simp
  qed
  have "(2::rat) powi (bitlen a - 1) = of_int (2 ^ nat (bitlen a - 1))"
    using p by (simp add: power_int_def)
  also have "\<dots> \<le> of_int a"
    using b(1) by (simp only: of_int_le_iff)
  finally show "(2::rat) powi (bitlen a - 1) \<le> of_int a" .
  have "(of_int a :: rat) < of_int (2 ^ nat (bitlen a))"
    using b(2) by (simp only: of_int_less_iff)
  also have "\<dots> = 2 powi (bitlen a)"
    using p by (simp add: power_int_def)
  finally show "of_int a < (2::rat) powi (bitlen a)" .
qed

lemma ilog2_bounds:
  assumes "0 < x"
  shows "2 powi (ilog2 x) \<le> x" and "x < 2 powi (ilog2 x + 1)"
proof -
  obtain a b where q: "quotient_of x = (a, b)"
    by (cases "quotient_of x") auto
  have b: "0 < b" and x: "x = of_int a / of_int b"
    using quotient_of_denom_pos [OF q] quotient_of_div [OF q] by simp_all
  have a: "0 < a"
    using assms b x by (simp add: zero_less_divide_iff)
  let ?e = "bitlen a - bitlen b"
  note ba = bitlen_powi [OF a] and bb = bitlen_powi [OF b]
  have pos: "0 < (2::rat) powi k" for k
    by (simp add: zero_less_power_int)
  have "x < 2 powi (bitlen a) / of_int b"
    unfolding x using ba(2) b by (simp add: divide_strict_right_mono)
  also have "\<dots> \<le> 2 powi (bitlen a) / 2 powi (bitlen b - 1)"
    using bb(1) pos [of "bitlen b - 1"] pos [of "bitlen a"]
    by (intro divide_left_mono) (simp_all add: b)
  also have "\<dots> = 2 powi (?e + 1)"
    by (simp add: power_int_diff [symmetric]) (simp add: algebra_simps)
  finally have up: "x < 2 powi (?e + 1)" .
  have "2 powi (?e - 1) = (2::rat) powi (bitlen a - 1) / 2 powi (bitlen b)"
    by (simp add: power_int_diff [symmetric]) (simp add: algebra_simps)
  also have "\<dots> \<le> of_int a / 2 powi (bitlen b)"
    using ba(1) pos [of "bitlen b"] by (simp add: divide_right_mono)
  also have "\<dots> \<le> of_int a / of_int b"
    using bb(2) a b by (intro divide_left_mono) (simp_all add: pos)
  finally have lo: "2 powi (?e - 1) \<le> x"
    by (simp add: x)
  show "2 powi (ilog2 x) \<le> x"
    using lo by (simp add: ilog2_def q Let_def)
  show "x < 2 powi (ilog2 x + 1)"
    using up by (simp add: ilog2_def q Let_def not_le)
qed

lemma ilog2_unique:
  assumes "2 powi e \<le> x" and "x < 2 powi (e + 1)"
  shows "ilog2 x = e"
proof -
  have "0 < (2::rat) powi e"
    by (simp add: zero_less_power_int)
  with assms(1) have x: "0 < x"
    by linarith
  note b = ilog2_bounds [OF x]
  have "(2::rat) powi e < 2 powi (ilog2 x + 1)"
    using assms(1) b(2) by simp
  then have 1: "e < ilog2 x + 1"
    by (smt (verit) power_int_increasing [of _ _ "2::rat"] not_le one_le_numeral)
  have "(2::rat) powi (ilog2 x) < 2 powi (e + 1)"
    using assms(2) b(1) by simp
  then have 2: "ilog2 x < e + 1"
    by (smt (verit) power_int_increasing [of _ _ "2::rat"] not_le one_le_numeral)
  from 1 2 show ?thesis
    by simp
qed

lemma round_half_even_error:
  "\<bar>of_int (round_half_even r) - r\<bar> \<le> 1 / 2"
proof -
  have f: "of_int \<lfloor>r\<rfloor> \<le> r" "r < of_int \<lfloor>r\<rfloor> + 1"
    by linarith+
  show ?thesis
    unfolding round_half_even_def Let_def using f
    by (auto simp: abs_le_iff)
qed

lemma round_half_even_of_int [simp]:
  "round_half_even (of_int m) = m"
  by (simp add: round_half_even_def)

lemma fp_round_normal:
  assumes "2 powi e \<le> x" and "x < 2 powi (e + 1)" and "emin \<le> e"
    and "of_int (round_half_even (x / 2 powi (e - (int p - 1)))) * 2 powi (e - (int p - 1)) = y"
    and "y < 2 powi (emax + 1)"
  shows "fp_round p emin emax x = Finite y"
proof -
  have "0 < (2::rat) powi e"
    by (simp add: zero_less_power_int)
  with assms(1) have x: "0 < x"
    by linarith
  have e: "ilog2 x = e"
    using assms(1,2) by (rule ilog2_unique)
  have m: "max e emin = e"
    using assms(3) by simp
  have n: "\<not> 2 powi (emax + 1) \<le> y"
    using assms(5) by simp
  have "fp_round p emin emax x =
      (if 2 powi (emax + 1) \<le> y then (if 0 < x then PInf else NInf) else Finite (sgn x * y))"
    using x unfolding fp_round_def Let_def by (simp add: e m assms(4))
  then show ?thesis
    using x n by simp
qed

lemma fp_round_error:
  assumes "2 powi emin \<le> x" and "x + x / 2 ^ p < 2 powi (emax + 1)"
  shows "\<exists>y. fp_round p emin emax x = Finite y \<and> \<bar>y - x\<bar> \<le> x / 2 ^ p"
proof -
  have "0 < (2::rat) powi emin"
    by (simp add: zero_less_power_int)
  with assms(1) have x: "0 < x"
    by linarith
  define e where "e = ilog2 x"
  note b = ilog2_bounds [OF x, folded e_def]
  have "(2::rat) powi emin < 2 powi (e + 1)"
    using assms(1) b(2) by simp
  then have "emin < e + 1"
    by (smt (verit) power_int_increasing [of _ _ "2::rat"] not_le one_le_numeral)
  then have emin: "emin \<le> e"
    by simp
  define q :: rat where "q = 2 powi (e - (int p - 1))"
  define y where "y = of_int (round_half_even (x / q)) * q"
  have q: "0 < q"
    by (simp add: q_def zero_less_power_int)
  have "q / 2 = 2 powi (e - int p)"
    unfolding q_def by (simp add: power_int_diff)
  also have "\<dots> = 2 powi e / 2 ^ p"
    by (simp add: power_int_diff)
  also have "\<dots> \<le> x / 2 ^ p"
    using b(1) by (simp add: divide_right_mono)
  finally have h: "q / 2 \<le> x / 2 ^ p" .
  have "(of_int (round_half_even (x / q)) - x / q) * q = y - x"
    using q by (simp add: y_def left_diff_distrib)
  then have "\<bar>y - x\<bar> = \<bar>of_int (round_half_even (x / q)) - x / q\<bar> * \<bar>q\<bar>"
    by (simp only: abs_mult [symmetric])
  then have "\<bar>y - x\<bar> = \<bar>of_int (round_half_even (x / q)) - x / q\<bar> * q"
    using q by simp
  also have "\<dots> \<le> 1 / 2 * q"
    using round_half_even_error [of "x / q"] q by (intro mult_right_mono) simp_all
  finally have "\<bar>y - x\<bar> \<le> q / 2"
    by simp
  then have err: "\<bar>y - x\<bar> \<le> x / 2 ^ p"
    using h by (rule order_trans)
  then have "y < 2 powi (emax + 1)"
    using assms(2) by linarith
  then have "fp_round p emin emax x = Finite y"
    using b emin by (intro fp_round_normal [where e = e]) (simp_all add: y_def q_def)
  with err show ?thesis
    by blast
qed

lemma f32_round_error:
  assumes "2 powi (- 126) \<le> x" and "x \<le> 2 powi 127"
  obtains y where "f32_round x = Finite y" and "x * (1 - 1 / 2 ^ 24) \<le> y"
    and "y \<le> x * (1 + 1 / 2 ^ 24)"
proof -
  have "x + x / 2 ^ 24 \<le> 2 powi 127 + 2 powi 127 / 2 ^ 24"
    using assms(2) by (intro add_mono divide_right_mono) simp_all
  also have "\<dots> < 2 powi (127 + 1)"
    by (simp add: power_int_add)
  finally have "\<exists>y. fp_round 24 (- 126) 127 x = Finite y \<and> \<bar>y - x\<bar> \<le> x / 2 ^ 24"
    using assms(1) by (intro fp_round_error) simp_all
  then obtain y where y: "f32_round x = Finite y" "\<bar>y - x\<bar> \<le> x / 2 ^ 24"
    by (auto simp: f32_round_def)
  from y(2) have "y - x \<le> x / 2 ^ 24" "x - y \<le> x / 2 ^ 24"
    by (simp_all only: abs_le_iff minus_diff_eq)
  then have "x * (1 - 1 / 2 ^ 24) \<le> y" "y \<le> x * (1 + 1 / 2 ^ 24)"
    by (simp_all add: algebra_simps)
  with y(1) show ?thesis
    by (rule that)
qed

lemma f64_round_error:
  assumes "2 powi (- 1022) \<le> x" and "x \<le> 2 powi 1023"
  obtains y where "f64_round x = Finite y" and "x * (1 - 1 / 2 ^ 53) \<le> y"
    and "y \<le> x * (1 + 1 / 2 ^ 53)"
proof -
  have "x + x / 2 ^ 53 \<le> 2 powi 1023 + 2 powi 1023 / 2 ^ 53"
    using assms(2) by (intro add_mono divide_right_mono) simp_all
  also have "\<dots> < 2 powi (1023 + 1)"
    by (simp add: power_int_add)
  finally have "\<exists>y. fp_round 53 (- 1022) 1023 x = Finite y \<and> \<bar>y - x\<bar> \<le> x / 2 ^ 53"
    using assms(1) by (intro fp_round_error) simp_all
  then obtain y where y: "f64_round x = Finite y" "\<bar>y - x\<bar> \<le> x / 2 ^ 53"
    by (auto simp: f64_round_def)
  from y(2) have "y - x \<le> x / 2 ^ 53" "x - y \<le> x / 2 ^ 53"
    by (simp_all only: abs_le_iff minus_diff_eq)
  then have "x * (1 - 1 / 2 ^ 53) \<le> y" "y \<le> x * (1 + 1 / 2 ^ 53)"
    by (simp_all add: algebra_simps)
  with y(1) show ?thesis
    by (rule that)
qed

lemma f32_round_nat:
  assumes "n < 2 ^ 24"
  shows "f32_round (of_nat n) = Finite (of_nat n)"
proof (cases "n = 0")
  case True
  then show ?thesis
    by (simp add: f32_round_def fp_round_def)
next
  case False
  define x :: rat where "x = of_nat n"
  have x: "1 \<le> x" "x < 2 ^ 24"
    using False assms by (simp_all add: x_def of_nat_less_iff [of n "2 ^ 24", where ?'a = rat, simplified])
  define e where "e = ilog2 x"
  have x0: "0 < x"
    using x(1) by simp
  note b = ilog2_bounds [OF x0, folded e_def]
  have "(2::rat) powi 0 < 2 powi (e + 1)"
    using x(1) b(2) by simp
  then have "0 < e + 1"
    by (smt (verit) power_int_increasing [of _ _ "2::rat"] not_le one_le_numeral)
  then have e0: "0 \<le> e"
    by simp
  have "(2::rat) powi e < 2 powi 24"
    using x(2) b(1) by simp
  then have e24: "e < 24"
    by (smt (verit) power_int_increasing [of _ _ "2::rat"] not_le one_le_numeral)
  define k where "k = nat (23 - e)"
  have q: "(2::rat) powi (e - (int 24 - 1)) = 1 / 2 ^ k"
    using e24 by (simp add: k_def power_int_def field_simps)
  have "x / (1 / 2 ^ k) = of_int (int n * 2 ^ k)"
    by (simp add: x_def)
  then have r: "round_half_even (x / (1 / 2 ^ k)) = int n * 2 ^ k"
    by (simp only: round_half_even_of_int)
  have "fp_round 24 (- 126) 127 x = Finite x"
  proof (rule fp_round_normal [where e = e])
    show "2 powi e \<le> x" "x < 2 powi (e + 1)"
      by (rule b)+
    show "- 126 \<le> e"
      using e0 by simp
    show "of_int (round_half_even (x / 2 powi (e - (int 24 - 1)))) * 2 powi (e - (int 24 - 1)) = x"
      unfolding q r by (simp add: x_def)
    have "x < 2 powi 24"
      using x(2) by simp
    also have "\<dots> \<le> 2 powi (127 + 1)"
      by (intro power_int_increasing) simp_all
    finally show "x < 2 powi (127 + 1)" .
  qed
  then show ?thesis
    by (simp add: f32_round_def x_def)
qed

lemma size_t_rat_bounds:
  assumes "0 < unat (n :: size_t)"
  shows "(1::rat) \<le> of_nat (unat n)" and "(of_nat (unat n) :: rat) \<le> 2 ^ 64"
proof -
  have "unat n < 2 ^ 64"
    using unsigned_less [of n, where ?'a = nat] by simp
  then show "(of_nat (unat n) :: rat) \<le> 2 ^ 64"
    by (metis less_imp_le of_nat_le_iff of_nat_numeral of_nat_power)
  have "of_nat 1 \<le> (of_nat (unat n) :: rat)"
    using assms by (simp only: of_nat_le_iff)
  then show "(1::rat) \<le> of_nat (unat n)"
    by (simp only: of_nat_1)
qed

lemma f32_of_size_t_bounds:
  assumes "0 < unat n"
  obtains y where "f32_of_size_t n = Finite y" and "of_nat (unat n) * (1 - 1 / 2 ^ 24) \<le> y"
    and "y \<le> of_nat (unat n) * (1 + 1 / 2 ^ 24)" and "1 / 2 \<le> y" and "y \<le> 2 ^ 65"
proof -
  note b = size_t_rat_bounds [OF assms]
  have "(2::rat) powi (- 126) \<le> 1"
    by (simp add: power_int_minus field_simps)
  with b(1) have 1: "(2::rat) powi (- 126) \<le> of_nat (unat n)"
    by linarith
  have "(2::rat) ^ 64 \<le> 2 powi 127"
    by simp
  with b(2) have 2: "(of_nat (unat n) :: rat) \<le> 2 powi 127"
    by linarith
  from 1 2 obtain y where y: "f32_round (of_nat (unat n)) = Finite y"
    "of_nat (unat n) * (1 - 1 / 2 ^ 24) \<le> y" "y \<le> of_nat (unat n) * (1 + 1 / 2 ^ 24)"
    by (rule f32_round_error)
  have "1 / 2 \<le> y" "y \<le> 2 ^ 65"
    using y(2,3) b by (simp_all add: algebra_simps)
  with y show ?thesis
    by (intro that [of y]) (simp_all only: f32_of_size_t_def)
qed

lemma axis_scale_bounds:
  assumes "0 < unat extent" and "f32_of_size_t extent = Finite W"
    and "f32_of_size_t sz = Finite S" and "1 / 2 \<le> W" and "W \<le> 2 ^ 65"
    and "1 / 2 \<le> S" and "S \<le> 2 ^ 65"
  obtains sc where "axis_scale extent sz = Finite sc"
    and "sc * W * (1 - 1 / 2 ^ 24) \<le> S * ((1 + 1 / 2 ^ 53) * (1 + 1 / 2 ^ 24))"
    and "S * ((1 - 1 / 2 ^ 53) * (1 - 1 / 2 ^ 24)) \<le> sc * W * (1 + 1 / 2 ^ 24)"
    and "2 powi (- 70) \<le> sc" and "sc \<le> 2 powi 70"
proof -
  have W: "0 < W" and S: "0 < S"
    using assms(4,6) by simp_all
  have q1: "W / S \<le> 2 ^ 66"
    using assms(5,6) S by (simp add: field_simps)
  have q2: "1 / 2 ^ 66 \<le> W / S"
    using assms(4,7) S by (simp add: field_simps)
  have "(2::rat) powi (- 126) \<le> 1 / 2 ^ 66"
    by (simp add: power_int_minus field_simps)
  with q2 have 1: "2 powi (- 126) \<le> W / S"
    by linarith
  have "(2::rat) ^ 66 \<le> 2 powi 127"
    by simp
  with q1 have 2: "W / S \<le> 2 powi 127"
    by linarith
  from 1 2 obtain r where r: "f32_round (W / S) = Finite r"
    "W / S * (1 - 1 / 2 ^ 24) \<le> r" "r \<le> W / S * (1 + 1 / 2 ^ 24)"
    by (rule f32_round_error)
  have r1: "1 / 2 ^ 67 \<le> r" and r2: "r \<le> 2 ^ 67"
    using r(2,3) q1 q2 by (simp_all add: algebra_simps)
  then have r0: "0 < r"
    by simp
  have i1: "1 / r \<le> 2 ^ 67"
    using r1 r0 by (simp add: field_simps)
  have i2: "1 / 2 ^ 67 \<le> 1 / r"
    using r2 r0 by (simp add: field_simps)
  have "(2::rat) powi (- 1022) \<le> 1 / 2 ^ 67"
    by (simp add: power_int_minus field_simps)
  with i2 have 3: "2 powi (- 1022) \<le> 1 / r"
    by linarith
  have "(2::rat) ^ 67 \<le> 2 powi 1023"
    by simp
  with i1 have 4: "1 / r \<le> 2 powi 1023"
    by linarith
  from 3 4 obtain d where d: "f64_round (1 / r) = Finite d"
    "1 / r * (1 - 1 / 2 ^ 53) \<le> d" "d \<le> 1 / r * (1 + 1 / 2 ^ 53)"
    by (rule f64_round_error)
  have d1: "1 / 2 ^ 68 \<le> d" and d2: "d \<le> 2 ^ 68"
    using d(2,3) i1 i2 by (simp_all add: algebra_simps)
  then have d0: "0 < d"
    by simp
  have "(2::rat) powi (- 126) \<le> 1 / 2 ^ 68"
    by (simp add: power_int_minus field_simps)
  with d1 have 5: "2 powi (- 126) \<le> d"
    by linarith
  have "(2::rat) ^ 68 \<le> 2 powi 127"
    by simp
  with d2 have 6: "d \<le> 2 powi 127"
    by linarith
  from 5 6 obtain sc where sc: "f32_round d = Finite sc"
    "d * (1 - 1 / 2 ^ 24) \<le> sc" "sc \<le> d * (1 + 1 / 2 ^ 24)"
    by (rule f32_round_error)
  have s1: "1 / 2 ^ 69 \<le> sc" and s2: "sc \<le> 2 ^ 69"
    using sc(2,3) d1 d2 by (simp_all add: algebra_simps)
  have a: "axis_scale extent sz = Finite sc"
    using S r0 by (simp add: axis_scale_def assms(2,3) r(1) d(1) sc(1))
  have dr1: "d * r \<le> 1 + 1 / 2 ^ 53"
    using d(3) r0 by (simp add: field_simps)
  have dr2: "1 - 1 / 2 ^ 53 \<le> d * r"
    using d(2) r0 by (simp add: field_simps)
  have rs1: "W * (1 - 1 / 2 ^ 24) \<le> r * S"
    using r(2) S by (simp add: field_simps)
  have rs2: "r * S \<le> W * (1 + 1 / 2 ^ 24)"
    using r(3) S by (simp add: field_simps)
  have "sc * W * (1 - 1 / 2 ^ 24) \<le> d * (1 + 1 / 2 ^ 24) * W * (1 - 1 / 2 ^ 24)"
    using sc(3) W by (intro mult_right_mono) simp_all
  also have "\<dots> = d * (1 + 1 / 2 ^ 24) * (W * (1 - 1 / 2 ^ 24))"
    by simp
  also have "\<dots> \<le> d * (1 + 1 / 2 ^ 24) * (r * S)"
    using rs1 d0 by (intro mult_left_mono) simp_all
  also have "\<dots> = d * r * (S * (1 + 1 / 2 ^ 24))"
    by simp
  also have "\<dots> \<le> (1 + 1 / 2 ^ 53) * (S * (1 + 1 / 2 ^ 24))"
    using dr1 S by (intro mult_right_mono) simp_all
  finally have up: "sc * W * (1 - 1 / 2 ^ 24) \<le> S * ((1 + 1 / 2 ^ 53) * (1 + 1 / 2 ^ 24))"
    by (simp add: mult.commute mult.left_commute)
  have "S * ((1 - 1 / 2 ^ 53) * (1 - 1 / 2 ^ 24)) = (1 - 1 / 2 ^ 53) * (S * (1 - 1 / 2 ^ 24))"
    by simp
  also have "\<dots> \<le> d * r * (S * (1 - 1 / 2 ^ 24))"
    using dr2 S by (intro mult_right_mono) simp_all
  also have "\<dots> = d * (1 - 1 / 2 ^ 24) * (r * S)"
    by simp
  also have "\<dots> \<le> d * (1 - 1 / 2 ^ 24) * (W * (1 + 1 / 2 ^ 24))"
    using rs2 d0 by (intro mult_left_mono) simp_all
  also have "\<dots> = d * (1 - 1 / 2 ^ 24) * W * (1 + 1 / 2 ^ 24)"
    by simp
  also have "\<dots> \<le> sc * W * (1 + 1 / 2 ^ 24)"
    using sc(2) W by (intro mult_right_mono) simp_all
  finally have lo: "S * ((1 - 1 / 2 ^ 53) * (1 - 1 / 2 ^ 24)) \<le> sc * W * (1 + 1 / 2 ^ 24)" .
  have "(2::rat) powi (- 70) \<le> 1 / 2 ^ 69"
    by (simp add: power_int_minus field_simps)
  with s1 have b1: "2 powi (- 70) \<le> sc"
    by linarith
  have "(2::rat) ^ 69 \<le> 2 powi 70"
    by simp
  with s2 have b2: "sc \<le> 2 powi 70"
    by linarith
  from a up lo b1 b2 show ?thesis
    by (rule that)
qed

lemma size_t_of_f32_bounds:
  assumes "of_nat m \<le> t" and "t < of_nat n + 1" and "n < 2 ^ 64"
  obtains k where "size_t_of_f32 (Finite t) = Some k" and "m \<le> unat k" and "unat k \<le> n"
proof -
  have t0: "0 \<le> t"
    using assms(1) of_nat_0_le_iff [of m, where ?'a = rat] by linarith
  have "t < 2 ^ 64"
  proof -
    have "n + 1 \<le> 2 ^ 64"
      using assms(3) by simp
    then have "(of_nat (n + 1) :: rat) \<le> of_nat (2 ^ 64)"
      by (simp only: of_nat_le_iff)
    then have "(of_nat n :: rat) + 1 \<le> 2 ^ 64"
      by simp
    with assms(2) show ?thesis
      by linarith
  qed
  then have s: "size_t_of_f32 (Finite t) = Some (of_int \<lfloor>t\<rfloor>)"
    using t0 by simp
  have f1: "int m \<le> \<lfloor>t\<rfloor>"
    using assms(1) by (simp add: le_floor_iff)
  have "t < of_int (int n + 1)"
    using assms(2) by simp
  then have "\<lfloor>t\<rfloor> < int n + 1"
    by (simp only: floor_less_iff)
  then have f2: "\<lfloor>t\<rfloor> \<le> int n"
    by simp
  have f0: "0 \<le> \<lfloor>t\<rfloor>"
    using f1 by linarith
  have "(of_int \<lfloor>t\<rfloor> :: size_t) = of_nat (nat \<lfloor>t\<rfloor>)"
    using f0 by simp
  then have "unat (of_int \<lfloor>t\<rfloor> :: size_t) = nat \<lfloor>t\<rfloor> mod 2 ^ 64"
    by (simp only: unat_of_nat) simp
  moreover have "nat \<lfloor>t\<rfloor> < 2 ^ 64"
    using f2 assms(3) by linarith
  ultimately have u: "unat (of_int \<lfloor>t\<rfloor> :: size_t) = nat \<lfloor>t\<rfloor>"
    by simp
  show ?thesis
  proof (rule that [OF s])
    show "m \<le> unat (of_int \<lfloor>t\<rfloor> :: size_t)"
      unfolding u using f1 by linarith
    show "unat (of_int \<lfloor>t\<rfloor> :: size_t) \<le> n"
      unfolding u using f2 by linarith
  qed
qed

lemma scaled_dim_below:
  assumes "f32_of_size_t extent = Finite W" and "1 / 2 \<le> W"
    and "sc \<le> sc'" and "2 powi (- 70) \<le> sc"
    and "sc' * W * (1 - 1 / 2 ^ 24) \<le> S * ((1 + 1 / 2 ^ 53) * (1 + 1 / 2 ^ 24))"
    and "S = of_nat s" and "s \<le> 2 ^ 22"
  obtains x t where "x = sc * W" and "f32_round x = Finite t"
    and "x * (1 - 1 / 2 ^ 24) \<le> t" and "0 \<le> t" and "t < of_nat s + 1"
proof -
  define x where "x = sc * W"
  have S: "S \<le> 2 ^ 22"
  proof -
    have "(of_nat s :: rat) \<le> of_nat (2 ^ 22)"
      using assms(7) by (simp only: of_nat_le_iff)
    then show ?thesis
      by (simp add: assms(6))
  qed
  have sc0: "0 < sc"
    using assms(4) zero_less_power_int [of "2::rat" "- 70"] by linarith
  have "(2::rat) powi (- 70) * (1 / 2) \<le> sc * W"
    using assms(2,4) sc0 by (intro mult_mono) (simp_all add: zero_le_power_int)
  moreover have "(2::rat) powi (- 126) \<le> 2 powi (- 70) * (1 / 2)"
    by (simp add: power_int_minus field_simps)
  ultimately have 1: "2 powi (- 126) \<le> x"
    unfolding x_def by linarith
  have "x \<le> sc' * W"
    unfolding x_def using assms(2,3) by (intro mult_right_mono) simp_all
  then have "x * (1 - 1 / 2 ^ 24) \<le> sc' * W * (1 - 1 / 2 ^ 24)"
    by (intro mult_right_mono) simp_all
  with assms(5) have xu: "x * (1 - 1 / 2 ^ 24) \<le> S * ((1 + 1 / 2 ^ 53) * (1 + 1 / 2 ^ 24))"
    by linarith
  then have "x \<le> 2 ^ 24"
    using S by (simp add: algebra_simps)
  moreover have "(2::rat) ^ 24 \<le> 2 powi 127"
    by simp
  ultimately have 2: "x \<le> 2 powi 127"
    by linarith
  from 1 2 obtain t where t: "f32_round x = Finite t" "x * (1 - 1 / 2 ^ 24) \<le> t"
    "t \<le> x * (1 + 1 / 2 ^ 24)"
    by (rule f32_round_error)
  have x0: "0 \<le> x"
    using assms(2) sc0 by (simp add: x_def)
  then have t0: "0 \<le> t"
    using t(2) by (simp add: algebra_simps)
  have "t * (1 - 1 / 2 ^ 24) \<le> x * (1 + 1 / 2 ^ 24) * (1 - 1 / 2 ^ 24)"
    using t(3) by (intro mult_right_mono) simp_all
  also have "\<dots> = x * (1 - 1 / 2 ^ 24) * (1 + 1 / 2 ^ 24)"
    by simp
  also have "\<dots> \<le> S * ((1 + 1 / 2 ^ 53) * (1 + 1 / 2 ^ 24)) * (1 + 1 / 2 ^ 24)"
    using xu by (intro mult_right_mono) simp_all
  finally have "t < S + 1"
    using S by (simp add: algebra_simps)
  then have "t < of_nat s + 1"
    by (simp add: assms(6))
  with x_def t(1,2) t0 show ?thesis
    by (rule that)
qed

lemma scaled_dim_above:
  assumes "(S::rat) * ((1 - 1 / 2 ^ 53) * (1 - 1 / 2 ^ 24)) \<le> x * (1 + 1 / 2 ^ 24)"
    and "x * (1 - 1 / 2 ^ 24) \<le> t" and "S = of_nat s" and "0 < s" and "s \<le> 2 ^ 22"
  shows "of_nat (s - 1) \<le> t"
proof -
  have S: "S \<le> 2 ^ 22"
  proof -
    have "(of_nat s :: rat) \<le> of_nat (2 ^ 22)"
      using assms(5) by (simp only: of_nat_le_iff)
    then show ?thesis
      by (simp add: assms(3))
  qed
  have "S * ((1 - 1 / 2 ^ 53) * (1 - 1 / 2 ^ 24)) * (1 - 1 / 2 ^ 24) \<le>
        x * (1 + 1 / 2 ^ 24) * (1 - 1 / 2 ^ 24)"
    using assms(1) by (intro mult_right_mono) simp_all
  also have "\<dots> = x * (1 - 1 / 2 ^ 24) * (1 + 1 / 2 ^ 24)"
    by simp
  also have "\<dots> \<le> t * (1 + 1 / 2 ^ 24)"
    using assms(2) by (intro mult_right_mono) simp_all
  finally have "S - 1 \<le> t"
    using S by (simp add: algebra_simps)
  moreover have "(of_nat (s - 1) :: rat) = of_nat s - 1"
    using assms(4) by (simp add: of_nat_diff)
  ultimately show ?thesis
    by (simp add: assms(3))
qed

lemma scaled_dim_Finite:
  "f32_of_size_t extent = Finite W \<Longrightarrow>
     scaled_dim (Finite sc) extent = size_t_of_f32 (f32_round (sc * W))"
  by (simp add: scaled_dim_def)

lemma contain_limiting_axis:
  assumes "f32_of_size_t extent = Finite W" and "1 / 2 \<le> W"
    and "2 powi (- 70) \<le> sc"
    and "sc * W * (1 - 1 / 2 ^ 24) \<le> S * ((1 + 1 / 2 ^ 53) * (1 + 1 / 2 ^ 24))"
    and "S * ((1 - 1 / 2 ^ 53) * (1 - 1 / 2 ^ 24)) \<le> sc * W * (1 + 1 / 2 ^ 24)"
    and "S = of_nat s" and "0 < s" and "s \<le> 2 ^ 22"
  obtains k where "scaled_dim (Finite sc) extent = Some k" and "s - 1 \<le> unat k" and "unat k \<le> s"
proof -
  obtain x t where x: "x = sc * W" and t: "f32_round x = Finite t"
    "x * (1 - 1 / 2 ^ 24) \<le> t" "0 \<le> t" "t < of_nat s + 1"
    using assms(1,2) order_refl assms(3,4,6,8) by (rule scaled_dim_below)
  have "of_nat (s - 1) \<le> t"
    using assms(5) [folded x] t(2) assms(6,7,8) by (rule scaled_dim_above)
  moreover note t(4)
  moreover have "s < 2 ^ 64"
    using assms(8) by (rule le_less_trans) simp
  ultimately obtain k where "size_t_of_f32 (Finite t) = Some k" "s - 1 \<le> unat k" "unat k \<le> s"
    by (rule size_t_of_f32_bounds [where m = "s - 1" and n = s and t = t])
  then show ?thesis
    by (intro that [of k]) (simp_all add: scaled_dim_Finite [OF assms(1)] x [symmetric] t(1))
qed

lemma contain_other_axis:
  assumes "f32_of_size_t extent = Finite W" and "1 / 2 \<le> W"
    and "sc \<le> sc'" and "2 powi (- 70) \<le> sc"
    and "sc' * W * (1 - 1 / 2 ^ 24) \<le> S * ((1 + 1 / 2 ^ 53) * (1 + 1 / 2 ^ 24))"
    and "S = of_nat s" and "s \<le> 2 ^ 22"
  obtains k where "scaled_dim (Finite sc) extent = Some k" and "unat k \<le> s"
proof -
  obtain x t where x: "x = sc * W" and t: "f32_round x = Finite t"
    "x * (1 - 1 / 2 ^ 24) \<le> t" "0 \<le> t" "t < of_nat s + 1"
    using assms by (rule scaled_dim_below)
  have "of_nat 0 \<le> t"
    using t(3) by simp
  moreover note t(4)
  moreover have "s < 2 ^ 64"
    using assms(7) by (rule le_less_trans) simp
  ultimately obtain k where "size_t_of_f32 (Finite t) = Some k" "0 \<le> unat k" "unat k \<le> s"
    by (rule size_t_of_f32_bounds [where m = 0 and n = s and t = t])
  then show ?thesis
    by (intro that [of k]) (simp_all add: scaled_dim_Finite [OF assms(1)] x [symmetric] t(1))
qed

subsection \<open>The scale factor of one axis\<close>

lemma f32_round_0 [simp]: "f32_round 0 = Finite 0"
  by (simp add: f32_round_def fp_round_def)

lemma axis_scale_size_0:
  assumes "0 < unat extent"
  shows "axis_scale extent 0 = Finite 0" and "scaled_dim (Finite 0) extent = Some 0"
proof -
  obtain W where W: "f32_of_size_t extent = Finite W" "1 / 2 \<le> W"
    using f32_of_size_t_bounds [OF assms] by metis
  have z: "f32_of_size_t 0 = Finite 0"
    by (simp add: f32_of_size_t_def)
  show "axis_scale extent 0 = Finite 0"
    using W(2) by (simp add: axis_scale_def W(1) z)
  show "scaled_dim (Finite 0) extent = Some 0"
    by (simp add: scaled_dim_def W(1))
qed

lemma contain_dimensions:
  assumes "0 < unat wd" and "0 < unat ht" and "unat sz \<le> 2 ^ 22"
  obtains sc tw th where "fp_min (axis_scale wd sz) (axis_scale ht sz) = Finite sc"
    and "scaled_dim (Finite sc) wd = Some tw" and "scaled_dim (Finite sc) ht = Some th"
    and "unat tw \<le> unat sz" and "unat th \<le> unat sz"
    and "unat sz - 1 \<le> unat tw \<or> unat sz - 1 \<le> unat th"
proof (cases "unat sz = 0")
  case True
  then have z: "sz = 0"
    by (simp add: unat_eq_0)
  note a = axis_scale_size_0 [OF assms(1)] axis_scale_size_0 [OF assms(2)]
  show ?thesis
    by (rule that [of 0 0 0]) (simp_all add: z a fp_min_def)
next
  case False
  then have s0: "0 < unat sz"
    by simp
  obtain W where W: "f32_of_size_t wd = Finite W" "1 / 2 \<le> W" "W \<le> 2 ^ 65"
    using f32_of_size_t_bounds [OF assms(1)] by metis
  obtain H where H: "f32_of_size_t ht = Finite H" "1 / 2 \<le> H" "H \<le> 2 ^ 65"
    using f32_of_size_t_bounds [OF assms(2)] by metis
  define S :: rat where "S = of_nat (unat sz)"
  have "unat sz < 2 ^ 24"
    using assms(3) by (rule le_less_trans) simp
  then have Sf: "f32_of_size_t sz = Finite S"
    unfolding f32_of_size_t_def S_def by (rule f32_round_nat)
  have Sb: "1 / 2 \<le> S" "S \<le> 2 ^ 65"
    using size_t_rat_bounds [OF s0] by (simp_all add: S_def)
  obtain sw where sw: "axis_scale wd sz = Finite sw"
    "sw * W * (1 - 1 / 2 ^ 24) \<le> S * ((1 + 1 / 2 ^ 53) * (1 + 1 / 2 ^ 24))"
    "S * ((1 - 1 / 2 ^ 53) * (1 - 1 / 2 ^ 24)) \<le> sw * W * (1 + 1 / 2 ^ 24)"
    "2 powi (- 70) \<le> sw"
    using axis_scale_bounds [OF assms(1) W(1) Sf W(2,3) Sb] by metis
  obtain sh where sh: "axis_scale ht sz = Finite sh"
    "sh * H * (1 - 1 / 2 ^ 24) \<le> S * ((1 + 1 / 2 ^ 53) * (1 + 1 / 2 ^ 24))"
    "S * ((1 - 1 / 2 ^ 53) * (1 - 1 / 2 ^ 24)) \<le> sh * H * (1 + 1 / 2 ^ 24)"
    "2 powi (- 70) \<le> sh"
    using axis_scale_bounds [OF assms(2) H(1) Sf H(2,3) Sb] by metis
  show ?thesis
  proof (cases "sw < sh")
    case True
    then have m: "fp_min (axis_scale wd sz) (axis_scale ht sz) = Finite sw"
      by (simp add: fp_min_def sw(1) sh(1))
    obtain tw where tw: "scaled_dim (Finite sw) wd = Some tw" "unat sz - 1 \<le> unat tw"
      "unat tw \<le> unat sz"
      using W(1,2) sw(4,2,3) S_def s0 assms(3) by (rule contain_limiting_axis)
    have "sw \<le> sh"
      using True by simp
    with H(1,2) obtain th where th: "scaled_dim (Finite sw) ht = Some th" "unat th \<le> unat sz"
      using sw(4) sh(2) S_def assms(3) by (rule contain_other_axis)
    from m tw(1) th(1) tw(3) th(2) tw(2) show ?thesis
      by (intro that [of sw tw th]) simp_all
  next
    case False
    then have m: "fp_min (axis_scale wd sz) (axis_scale ht sz) = Finite sh"
      by (simp add: fp_min_def sw(1) sh(1))
    obtain th where th: "scaled_dim (Finite sh) ht = Some th" "unat sz - 1 \<le> unat th"
      "unat th \<le> unat sz"
      using H(1,2) sh(4,2,3) S_def s0 assms(3) by (rule contain_limiting_axis)
    have "sh \<le> sw"
      using False by simp
    with W(1,2) obtain tw where tw: "scaled_dim (Finite sh) wd = Some tw" "unat tw \<le> unat sz"
      using sh(4) sw(2) S_def assms(3) by (rule contain_other_axis)
    from m tw(1) th(1) tw(2) th(3) th(2) show ?thesis
      by (intro that [of sh tw th]) simp_all
  qed
qed

subsection \<open>Evaluating a rounding\<close>

lemma round_half_even_near:
  assumes "\<bar>r - of_int m\<bar> < 1 / 2"
  shows "round_half_even r = m"
proof -
  have f: "of_int \<lfloor>r\<rfloor> \<le> r" "r < of_int \<lfloor>r\<rfloor> + 1"
    by linarith+
  from assms have a: "r - of_int m < 1 / 2" "of_int m - r < 1 / 2"
    by (simp_all only: abs_less_iff minus_diff_eq)
  show ?thesis
  proof (cases "of_int m \<le> r")
    case True
    then have "m \<le> \<lfloor>r\<rfloor>"
      by (simp add: le_floor_iff)
    moreover have "of_int \<lfloor>r\<rfloor> < of_int m + (1::rat)"
      using f(1) a(1) by linarith
    then have "of_int \<lfloor>r\<rfloor> < (of_int (m + 1) :: rat)"
      by simp
    then have "\<lfloor>r\<rfloor> < m + 1"
      by (simp only: of_int_less_iff)
    ultimately have e: "\<lfloor>r\<rfloor> = m"
      by simp
    show ?thesis
      using a(1) by (simp add: round_half_even_def Let_def e)
  next
    case False
    then have "r < of_int m"
      by simp
    then have "\<lfloor>r\<rfloor> < m"
      by (simp add: floor_less_iff)
    moreover have "(of_int m :: rat) < of_int \<lfloor>r\<rfloor> + 2"
      using f(2) a(2) by linarith
    then have "(of_int m :: rat) < of_int (\<lfloor>r\<rfloor> + 2)"
      by simp
    then have "m < \<lfloor>r\<rfloor> + 2"
      by (simp only: of_int_less_iff)
    ultimately have e: "\<lfloor>r\<rfloor> = m - 1"
      by simp
    show ?thesis
      using a(2) by (simp add: round_half_even_def Let_def e)
  qed
qed

lemma fp_round_eval:
  assumes "2 powi e \<le> x" and "x < 2 powi (e + 1)" and "emin \<le> e"
    and "\<bar>x / 2 powi (e - (int p - 1)) - of_int m\<bar> < 1 / 2"
    and "of_int m * 2 powi (e - (int p - 1)) = y"
    and "y < 2 powi (emax + 1)"
  shows "fp_round p emin emax x = Finite y"
  using assms(1,2,3) _ assms(6)
  by (rule fp_round_normal) (simp add: round_half_even_near [OF assms(4)] assms(5))

subsection \<open>The scaled dimensions under fill\<close>

lemma sint_half:
  "sint ((a :: 64 word) div 2) = int (unat a div 2)"
proof -
  have "unat a < 2 ^ 64"
    using unsigned_less [of a, where ?'a = nat] by simp
  then have "unat a div 2 < 2 ^ 63"
    by simp
  then have l: "int (unat (a div 2)) < 2 ^ 63"
    by (simp add: unat_div)
  have "sint (a div 2) = signed_take_bit 63 (uint (a div 2))"
    by (simp add: sint_uint)
  also have "\<dots> = uint (a div 2)"
  proof (rule signed_take_bit_int_eq_self)
    show "- (2 ^ 63) \<le> uint (a div 2)"
      by (rule order_trans [of _ 0]) simp_all
    show "uint (a div 2) < 2 ^ 63"
      using l by simp
  qed
  finally show ?thesis
    by (simp add: uint_nat unat_div)
qed

lemma offset_signed:
  "sint ((a :: 64 word) div 2 - b div 2) = int (unat a div 2) - int (unat b div 2)"
proof -
  have a: "0 \<le> sint (a div 2)" "sint (a div 2) < 2 ^ 63"
    using sint_lt [of "a div 2"] by (simp_all add: sint_half)
  have b: "0 \<le> sint (b div 2)" "sint (b div 2) < 2 ^ 63"
    using sint_lt [of "b div 2"] by (simp_all add: sint_half)
  have "sint (a div 2 - b div 2) = signed_take_bit 63 (sint (a div 2) - sint (b div 2))"
    by (simp add: sint_word_diff)
  also have "\<dots> = sint (a div 2) - sint (b div 2)"
    using a b by (intro signed_take_bit_int_eq_self) simp_all
  finally show ?thesis
    by (simp add: sint_half)
qed

lemma fill_scaled_dim:
  assumes "f32_of_size_t extent = Finite W" and "1 / 2 \<le> W"
    and "W \<le> D * (1 + 1 / 2 ^ 24)"
    and "2 powi (- 70) \<le> sc"
    and "sc * X * (1 - 1 / 2 ^ 24) \<le> S * ((1 + 1 / 2 ^ 53) * (1 + 1 / 2 ^ 24))"
    and "1 / 2 \<le> X" and "0 \<le> S"
    and "S \<le> N * (1 + 1 / 2 ^ 24)" and "0 \<le> N"
    and "N * D \<le> 2 ^ 62"
  obtains k where "scaled_dim (Finite sc) extent = Some k"
proof -
  define x where "x = sc * W"
  define P :: rat where "P = N * D"
  have P: "P \<le> 2 ^ 62"
    using assms(10) by (simp add: P_def)
  have sc0: "0 < sc"
    using assms(4) zero_less_power_int [of "2::rat" "- 70"] by linarith
  have "(2::rat) powi (- 70) * (1 / 2) \<le> sc * W"
    using assms(2,4) sc0 by (intro mult_mono) (simp_all add: zero_le_power_int)
  moreover have "(2::rat) powi (- 126) \<le> 2 powi (- 70) * (1 / 2)"
    by (simp add: power_int_minus field_simps)
  ultimately have 1: "2 powi (- 126) \<le> x"
    unfolding x_def by linarith
  have "sc * (1 / 2) * (1 - 1 / 2 ^ 24) \<le> sc * X * (1 - 1 / 2 ^ 24)"
    using assms(6) sc0 by (intro mult_right_mono mult_left_mono) simp_all
  also have "\<dots> \<le> S * ((1 + 1 / 2 ^ 53) * (1 + 1 / 2 ^ 24))"
    by (rule assms(5))
  also have "\<dots> \<le> N * (1 + 1 / 2 ^ 24) * ((1 + 1 / 2 ^ 53) * (1 + 1 / 2 ^ 24))"
    using assms(8) by (intro mult_right_mono) simp_all
  finally have s: "sc * (1 / 2) * (1 - 1 / 2 ^ 24) \<le>
      N * (1 + 1 / 2 ^ 24) * ((1 + 1 / 2 ^ 53) * (1 + 1 / 2 ^ 24))" .
  have W0: "0 \<le> W"
    using assms(2) by simp
  have "x * (1 / 2) * (1 - 1 / 2 ^ 24) = sc * (1 / 2) * (1 - 1 / 2 ^ 24) * W"
    by (simp add: x_def)
  also have "\<dots> \<le>
      N * (1 + 1 / 2 ^ 24) * ((1 + 1 / 2 ^ 53) * (1 + 1 / 2 ^ 24)) * W"
    using s W0 by (rule mult_right_mono)
  also have "\<dots> \<le> N * (1 + 1 / 2 ^ 24) * ((1 + 1 / 2 ^ 53) * (1 + 1 / 2 ^ 24)) *
      (D * (1 + 1 / 2 ^ 24))"
    using assms(3,9) by (intro mult_left_mono) simp_all
  also have "\<dots> = P * ((1 + 1 / 2 ^ 24) * ((1 + 1 / 2 ^ 53) * (1 + 1 / 2 ^ 24)) * (1 + 1 / 2 ^ 24))"
    by (simp add: P_def)
  also have "\<dots> \<le> 2 ^ 62 * ((1 + 1 / 2 ^ 24) * ((1 + 1 / 2 ^ 53) * (1 + 1 / 2 ^ 24)) * (1 + 1 / 2 ^ 24))"
    using P by (intro mult_right_mono) simp_all
  finally have xu: "x \<le> 2 ^ 63 + 2 ^ 42"
    by (simp add: algebra_simps)
  have "(2::rat) ^ 63 + 2 ^ 42 \<le> 2 powi 127"
    by simp
  with xu have 2: "x \<le> 2 powi 127"
    by linarith
  from 1 2 obtain t where t: "f32_round x = Finite t" "x * (1 - 1 / 2 ^ 24) \<le> t"
    "t \<le> x * (1 + 1 / 2 ^ 24)"
    by (rule f32_round_error)
  have x0: "0 \<le> x"
    using W0 sc0 by (simp add: x_def)
  then have t0: "0 \<le> t"
    using t(2) by (simp add: algebra_simps)
  have "t < 2 ^ 64"
    using t(3) xu by (simp add: algebra_simps)
  then have "size_t_of_f32 (Finite t) = Some (of_int \<lfloor>t\<rfloor>)"
    using t0 by simp
  then show ?thesis
    by (intro that [of "of_int \<lfloor>t\<rfloor>"])
       (simp add: scaled_dim_Finite [OF assms(1)] x_def [symmetric] t(1))
qed

lemma size_t_product_bound:
  assumes "unat (a :: size_t) * unat (b :: size_t) < 2 ^ 62"
  shows "(of_nat (unat a) :: rat) * of_nat (unat b) \<le> 2 ^ 62"
proof -
  have "(of_nat (unat a * unat b) :: rat) \<le> of_nat (2 ^ 62)"
    using assms by (simp only: of_nat_le_iff)
  then show ?thesis
    by (simp only: of_nat_mult of_nat_power of_nat_numeral)
qed

lemma fill_defined:
  assumes "0 < unat wd" and "0 < unat ht"
    and "unat sz * unat wd < 2 ^ 62" and "unat sz * unat ht < 2 ^ 62"
  obtains sc tw th where "fp_max (axis_scale wd sz) (axis_scale ht sz) = Finite sc"
    and "scaled_dim (Finite sc) wd = Some tw" and "scaled_dim (Finite sc) ht = Some th"
proof (cases "unat sz = 0")
  case True
  then have z: "sz = 0"
    by (simp add: unat_eq_0)
  note a = axis_scale_size_0 [OF assms(1)] axis_scale_size_0 [OF assms(2)]
  show ?thesis
    by (rule that [of 0 0 0]) (simp_all add: z a fp_max_def)
next
  case False
  then have s0: "0 < unat sz"
    by simp
  obtain W where W: "f32_of_size_t wd = Finite W" "1 / 2 \<le> W" "W \<le> 2 ^ 65"
    "W \<le> of_nat (unat wd) * (1 + 1 / 2 ^ 24)"
    using f32_of_size_t_bounds [OF assms(1)] by metis
  obtain H where H: "f32_of_size_t ht = Finite H" "1 / 2 \<le> H" "H \<le> 2 ^ 65"
    "H \<le> of_nat (unat ht) * (1 + 1 / 2 ^ 24)"
    using f32_of_size_t_bounds [OF assms(2)] by metis
  obtain S where S: "f32_of_size_t sz = Finite S" "1 / 2 \<le> S" "S \<le> 2 ^ 65"
    "S \<le> of_nat (unat sz) * (1 + 1 / 2 ^ 24)"
    using f32_of_size_t_bounds [OF s0] by metis
  have S0: "0 \<le> S"
    using S(2) by simp
  have N0: "(0::rat) \<le> of_nat (unat sz)"
    by (rule of_nat_0_le_iff)
  note pw = size_t_product_bound [OF assms(3)] and ph = size_t_product_bound [OF assms(4)]
  obtain sw where sw: "axis_scale wd sz = Finite sw"
    "sw * W * (1 - 1 / 2 ^ 24) \<le> S * ((1 + 1 / 2 ^ 53) * (1 + 1 / 2 ^ 24))"
    "2 powi (- 70) \<le> sw"
    using axis_scale_bounds [OF assms(1) W(1) S(1) W(2,3) S(2,3)] by metis
  obtain sh where sh: "axis_scale ht sz = Finite sh"
    "sh * H * (1 - 1 / 2 ^ 24) \<le> S * ((1 + 1 / 2 ^ 53) * (1 + 1 / 2 ^ 24))"
    "2 powi (- 70) \<le> sh"
    using axis_scale_bounds [OF assms(2) H(1) S(1) H(2,3) S(2,3)] by metis
  show ?thesis
  proof (cases "sh < sw")
    case True
    then have m: "fp_max (axis_scale wd sz) (axis_scale ht sz) = Finite sw"
      by (simp add: fp_max_def sw(1) sh(1))
    obtain tw where tw: "scaled_dim (Finite sw) wd = Some tw"
      using W(1,2,4) sw(3,2) W(2) S0 S(4) N0 pw by (rule fill_scaled_dim)
    obtain th where th: "scaled_dim (Finite sw) ht = Some th"
      using H(1,2,4) sw(3,2) W(2) S0 S(4) N0 ph by (rule fill_scaled_dim)
    from m tw th show ?thesis
      by (rule that)
  next
    case False
    then have m: "fp_max (axis_scale wd sz) (axis_scale ht sz) = Finite sh"
      by (simp add: fp_max_def sw(1) sh(1))
    obtain tw where tw: "scaled_dim (Finite sh) wd = Some tw"
      using W(1,2,4) sh(3,2) H(2) S0 S(4) N0 pw by (rule fill_scaled_dim)
    obtain th where th: "scaled_dim (Finite sh) ht = Some th"
      using H(1,2,4) sh(3,2) H(2) S0 S(4) N0 ph by (rule fill_scaled_dim)
    from m tw th show ?thesis
      by (rule that)
  qed
qed

subsection \<open>The accuracy of the scale\<close>

lemma scale_accuracy:
  assumes "sc * W * (1 - 1 / 2 ^ 24) \<le> S * ((1 + 1 / 2 ^ 53) * (1 + 1 / 2 ^ 24))"
    and "S * ((1 - 1 / 2 ^ 53) * (1 - 1 / 2 ^ 24)) \<le> sc * W * (1 + 1 / 2 ^ 24)"
    and "D * (1 - 1 / 2 ^ 24) \<le> W" and "W \<le> D * (1 + 1 / 2 ^ 24)"
    and "N * (1 - 1 / 2 ^ 24) \<le> S" and "S \<le> N * (1 + 1 / 2 ^ 24)"
    and "(0::rat) < D" and "0 \<le> N" and "0 \<le> sc"
  shows "\<bar>sc - N / D\<bar> \<le> N / D / 2 ^ 21"
proof -
  have "sc * D * ((1 - 1 / 2 ^ 24) * (1 - 1 / 2 ^ 24)) = sc * (D * (1 - 1 / 2 ^ 24)) * (1 - 1 / 2 ^ 24)"
    by simp
  also have "\<dots> \<le> sc * W * (1 - 1 / 2 ^ 24)"
    using assms(3,9) by (intro mult_right_mono mult_left_mono) simp_all
  also have "\<dots> \<le> S * ((1 + 1 / 2 ^ 53) * (1 + 1 / 2 ^ 24))"
    by (rule assms(1))
  also have "\<dots> \<le> N * (1 + 1 / 2 ^ 24) * ((1 + 1 / 2 ^ 53) * (1 + 1 / 2 ^ 24))"
    using assms(6) by (intro mult_right_mono) simp_all
  finally have "sc * D * ((1 - 1 / 2 ^ 24) * (1 - 1 / 2 ^ 24)) \<le>
      N * ((1 + 1 / 2 ^ 24) * ((1 + 1 / 2 ^ 53) * (1 + 1 / 2 ^ 24)))"
    by (simp add: mult.assoc)
  moreover have "N * ((1 + 1 / 2 ^ 24) * ((1 + 1 / 2 ^ 53) * (1 + 1 / 2 ^ 24))) \<le>
      N * ((1 + 1 / 2 ^ 21) * ((1 - 1 / 2 ^ 24) * (1 - 1 / 2 ^ 24)))"
    using assms(8) by (intro mult_left_mono) simp_all
  ultimately have "sc * D * ((1 - 1 / 2 ^ 24) * (1 - 1 / 2 ^ 24)) \<le>
      N * (1 + 1 / 2 ^ 21) * ((1 - 1 / 2 ^ 24) * (1 - 1 / 2 ^ 24))"
    by (simp add: mult.assoc)
  then have up: "sc * D \<le> N * (1 + 1 / 2 ^ 21)"
    by (rule mult_right_le_imp_le) simp
  have "N * ((1 - 1 / 2 ^ 21) * ((1 + 1 / 2 ^ 24) * (1 + 1 / 2 ^ 24))) \<le>
      N * ((1 - 1 / 2 ^ 24) * ((1 - 1 / 2 ^ 53) * (1 - 1 / 2 ^ 24)))"
    using assms(8) by (intro mult_left_mono) simp_all
  also have "\<dots> = N * (1 - 1 / 2 ^ 24) * ((1 - 1 / 2 ^ 53) * (1 - 1 / 2 ^ 24))"
    by simp
  also have "\<dots> \<le> S * ((1 - 1 / 2 ^ 53) * (1 - 1 / 2 ^ 24))"
    using assms(5) by (intro mult_right_mono) simp_all
  also have "\<dots> \<le> sc * W * (1 + 1 / 2 ^ 24)"
    by (rule assms(2))
  also have "\<dots> \<le> sc * (D * (1 + 1 / 2 ^ 24)) * (1 + 1 / 2 ^ 24)"
    using assms(4,9) by (intro mult_right_mono mult_left_mono) simp_all
  finally have "N * (1 - 1 / 2 ^ 21) * ((1 + 1 / 2 ^ 24) * (1 + 1 / 2 ^ 24)) \<le>
      sc * D * ((1 + 1 / 2 ^ 24) * (1 + 1 / 2 ^ 24))"
    by (simp add: mult.assoc)
  then have lo: "N * (1 - 1 / 2 ^ 21) \<le> sc * D"
    by (rule mult_right_le_imp_le) simp
  from up lo assms(7) have "sc - N / D \<le> N / D / 2 ^ 21" "N / D - sc \<le> N / D / 2 ^ 21"
    by (simp_all add: field_simps)
  then show ?thesis
    by (simp only: abs_le_iff minus_diff_eq)
qed

lemma min_accuracy:
  assumes "\<bar>x - a\<bar> \<le> a / 2 ^ 21" and "\<bar>y - b\<bar> \<le> b / 2 ^ 21"
  shows "\<bar>(if x < y then x else y) - min a b\<bar> \<le> min a b / (2 ^ 21 :: rat)"
proof -
  from assms have "x - a \<le> a / 2 ^ 21" "a - x \<le> a / 2 ^ 21"
    "y - b \<le> b / 2 ^ 21" "b - y \<le> b / 2 ^ 21"
    by (simp_all only: abs_le_iff minus_diff_eq)
  then have "(if x < y then x else y) - min a b \<le> min a b / 2 ^ 21"
    "min a b - (if x < y then x else y) \<le> min a b / 2 ^ 21"
    by (auto simp: min_def field_simps)
  then show ?thesis
    by (simp only: abs_le_iff minus_diff_eq)
qed

lemma max_accuracy:
  assumes "\<bar>x - a\<bar> \<le> a / 2 ^ 21" and "\<bar>y - b\<bar> \<le> b / 2 ^ 21"
  shows "\<bar>(if y < x then x else y) - max a b\<bar> \<le> max a b / (2 ^ 21 :: rat)"
proof -
  from assms have "x - a \<le> a / 2 ^ 21" "a - x \<le> a / 2 ^ 21"
    "y - b \<le> b / 2 ^ 21" "b - y \<le> b / 2 ^ 21"
    by (simp_all only: abs_le_iff minus_diff_eq)
  then have "(if y < x then x else y) - max a b \<le> max a b / 2 ^ 21"
    "max a b - (if y < x then x else y) \<le> max a b / 2 ^ 21"
    by (auto simp: max_def field_simps)
  then show ?thesis
    by (simp only: abs_le_iff minus_diff_eq)
qed

lemma axis_scale_accuracy:
  assumes "0 < unat extent"
  obtains sc where "axis_scale extent sz = Finite sc"
    and "\<bar>sc - of_nat (unat sz) / of_nat (unat extent)\<bar> \<le>
           of_nat (unat sz) / of_nat (unat extent) / 2 ^ 21"
proof (cases "unat sz = 0")
  case True
  then have z: "sz = 0"
    by (simp add: unat_eq_0)
  show ?thesis
    by (rule that [of 0]) (simp_all add: z axis_scale_size_0 [OF assms])
next
  case False
  then have s0: "0 < unat sz"
    by simp
  define D :: rat where "D = of_nat (unat extent)"
  define N :: rat where "N = of_nat (unat sz)"
  have D: "0 < D" and N: "0 \<le> N"
    using size_t_rat_bounds [OF assms] size_t_rat_bounds [OF s0] by (simp_all add: D_def N_def)
  obtain W where W: "f32_of_size_t extent = Finite W" "1 / 2 \<le> W" "W \<le> 2 ^ 65"
    "D * (1 - 1 / 2 ^ 24) \<le> W" "W \<le> D * (1 + 1 / 2 ^ 24)"
    unfolding D_def using f32_of_size_t_bounds [OF assms] by metis
  obtain S where S: "f32_of_size_t sz = Finite S" "1 / 2 \<le> S" "S \<le> 2 ^ 65"
    "N * (1 - 1 / 2 ^ 24) \<le> S" "S \<le> N * (1 + 1 / 2 ^ 24)"
    unfolding N_def using f32_of_size_t_bounds [OF s0] by metis
  obtain sc where sc: "axis_scale extent sz = Finite sc"
    "sc * W * (1 - 1 / 2 ^ 24) \<le> S * ((1 + 1 / 2 ^ 53) * (1 + 1 / 2 ^ 24))"
    "S * ((1 - 1 / 2 ^ 53) * (1 - 1 / 2 ^ 24)) \<le> sc * W * (1 + 1 / 2 ^ 24)"
    "2 powi (- 70) \<le> sc"
    using axis_scale_bounds [OF assms W(1) S(1) W(2,3) S(2,3)] by metis
  have "0 \<le> sc"
    using sc(4) zero_less_power_int [of "2::rat" "- 70"] by linarith
  with sc(2,3) W(4,5) S(4,5) D N have "\<bar>sc - N / D\<bar> \<le> N / D / 2 ^ 21"
    by (rule scale_accuracy)
  with sc(1) show ?thesis
    unfolding D_def N_def by (rule that)
qed

lemma contain_scale_accuracy:
  assumes "0 < unat wd" and "0 < unat ht"
  obtains sc where "fp_min (axis_scale wd sz) (axis_scale ht sz) = Finite sc"
    and "\<bar>sc - min (of_nat (unat sz) / of_nat (unat wd)) (of_nat (unat sz) / of_nat (unat ht))\<bar> \<le>
           min (of_nat (unat sz) / of_nat (unat wd)) (of_nat (unat sz) / of_nat (unat ht)) / 2 ^ 21"
proof -
  obtain sw where sw: "axis_scale wd sz = Finite sw"
    "\<bar>sw - of_nat (unat sz) / of_nat (unat wd)\<bar> \<le> of_nat (unat sz) / of_nat (unat wd) / 2 ^ 21"
    using assms(1) by (rule axis_scale_accuracy)
  obtain sh where sh: "axis_scale ht sz = Finite sh"
    "\<bar>sh - of_nat (unat sz) / of_nat (unat ht)\<bar> \<le> of_nat (unat sz) / of_nat (unat ht) / 2 ^ 21"
    using assms(2) by (rule axis_scale_accuracy)
  have "fp_min (axis_scale wd sz) (axis_scale ht sz) = Finite (if sw < sh then sw else sh)"
    by (simp add: fp_min_def sw(1) sh(1))
  then show ?thesis
    using min_accuracy [OF sw(2) sh(2)] by (rule that)
qed

lemma fill_scale_accuracy:
  assumes "0 < unat wd" and "0 < unat ht"
  obtains sc where "fp_max (axis_scale wd sz) (axis_scale ht sz) = Finite sc"
    and "\<bar>sc - max (of_nat (unat sz) / of_nat (unat wd)) (of_nat (unat sz) / of_nat (unat ht))\<bar> \<le>
           max (of_nat (unat sz) / of_nat (unat wd)) (of_nat (unat sz) / of_nat (unat ht)) / 2 ^ 21"
proof -
  obtain sw where sw: "axis_scale wd sz = Finite sw"
    "\<bar>sw - of_nat (unat sz) / of_nat (unat wd)\<bar> \<le> of_nat (unat sz) / of_nat (unat wd) / 2 ^ 21"
    using assms(1) by (rule axis_scale_accuracy)
  obtain sh where sh: "axis_scale ht sz = Finite sh"
    "\<bar>sh - of_nat (unat sz) / of_nat (unat ht)\<bar> \<le> of_nat (unat sz) / of_nat (unat ht) / 2 ^ 21"
    using assms(2) by (rule axis_scale_accuracy)
  have "fp_max (axis_scale wd sz) (axis_scale ht sz) = Finite (if sh < sw then sw else sh)"
    by (simp add: fp_max_def sw(1) sh(1))
  then show ?thesis
    using max_accuracy [OF sw(2) sh(2)] by (rule that)
qed

subsection \<open>The example images\<close>

lemma rounded_1: "f32_round 4000 = Finite 4000"
  unfolding f32_round_def
  by (rule fp_round_eval [where e = 11 and m = 16384000]) simp_all

lemma rounded_2: "f32_round 2000 = Finite 2000"
  unfolding f32_round_def
  by (rule fp_round_eval [where e = 10 and m = 16384000]) simp_all

lemma rounded_3: "f32_round 256 = Finite 256"
  unfolding f32_round_def
  by (rule fp_round_eval [where e = 8 and m = 8388608]) simp_all

lemma rounded_4: "f32_round (125 / 8) = Finite (125 / 8)"
  unfolding f32_round_def
  by (rule fp_round_eval [where e = 3 and m = 16384000]) simp_all

lemma rounded_5: "f64_round (8 / 125) = Finite (1152921504606847 / 18014398509481984)"
  unfolding f64_round_def
  by (rule fp_round_eval [where e = "- 4" and m = 4611686018427388]) simp_all

lemma rounded_6: "f32_round (1152921504606847 / 18014398509481984) = Finite (8589935 / 134217728)"
  unfolding f32_round_def
  by (rule fp_round_eval [where e = "- 4" and m = 8589935]) simp_all

lemma rounded_7: "f32_round (125 / 16) = Finite (125 / 16)"
  unfolding f32_round_def
  by (rule fp_round_eval [where e = 2 and m = 16384000]) simp_all

lemma rounded_8: "f64_round (16 / 125) = Finite (1152921504606847 / 9007199254740992)"
  unfolding f64_round_def
  by (rule fp_round_eval [where e = "- 3" and m = 4611686018427388]) simp_all

lemma rounded_9: "f32_round (1152921504606847 / 9007199254740992) = Finite (8589935 / 67108864)"
  unfolding f32_round_def
  by (rule fp_round_eval [where e = "- 3" and m = 8589935]) simp_all

lemma rounded_10: "f32_round (1073741875 / 4194304) = Finite 256"
  unfolding f32_round_def
  by (rule fp_round_eval [where e = 8 and m = 8388608]) simp_all

lemma rounded_11: "f32_round (1073741875 / 8388608) = Finite 128"
  unfolding f32_round_def
  by (rule fp_round_eval [where e = 7 and m = 8388608]) simp_all

lemma rounded_12: "f32_round (1073741875 / 2097152) = Finite 512"
  unfolding f32_round_def
  by (rule fp_round_eval [where e = 9 and m = 8388608]) simp_all

lemma rounded_13: "f32_round 19 = Finite 19"
  unfolding f32_round_def
  by (rule fp_round_eval [where e = 4 and m = 9961472]) simp_all

lemma rounded_14: "f32_round 8388611 = Finite 8388611"
  unfolding f32_round_def
  by (rule fp_round_eval [where e = 23 and m = 8388611]) simp_all

lemma rounded_15: "f32_round (19 / 8388611) = Finite (2490367 / 1099511627776)"
  unfolding f32_round_def
  by (rule fp_round_eval [where e = "- 19" and m = 9961468]) simp_all

lemma rounded_16: "f64_round (1099511627776 / 2490367) = Finite (7585012944469061 / 17179869184)"
  unfolding f64_round_def
  by (rule fp_round_eval [where e = 18 and m = 7585012944469061]) simp_all

lemma rounded_17: "f32_round (7585012944469061 / 17179869184) = Finite (3532047 / 8)"
  unfolding f32_round_def
  by (rule fp_round_eval [where e = 18 and m = 14128188]) simp_all

lemma rounded_18: "f32_round (67108893 / 8) = Finite 8388612"
  unfolding f32_round_def
  by (rule fp_round_eval [where e = 23 and m = 8388612]) simp_all

lemma rounded_19: "f32_round 4294967296 = Finite 4294967296"
  unfolding f32_round_def
  by (rule fp_round_eval [where e = 32 and m = 8388608]) simp_all

lemma rounded_20: "f32_round 1 = Finite 1"
  unfolding f32_round_def
  by (rule fp_round_eval [where e = 0 and m = 8388608]) simp_all

lemma rounded_21: "f64_round 1 = Finite 1"
  unfolding f64_round_def
  by (rule fp_round_eval [where e = 0 and m = 4503599627370496]) simp_all

lemma rounded_22: "f32_round (1 / 4294967296) = Finite (1 / 4294967296)"
  unfolding f32_round_def
  by (rule fp_round_eval [where e = "- 32" and m = 8388608]) simp_all

lemma rounded_23: "f64_round 4294967296 = Finite 4294967296"
  unfolding f64_round_def
  by (rule fp_round_eval [where e = 32 and m = 4503599627370496]) simp_all

lemma rounded_24: "f32_round 18446744073709551616 = Finite 18446744073709551616"
  unfolding f32_round_def
  by (rule fp_round_eval [where e = 64 and m = 8388608]) simp_all

lemmas roundings =
  rounded_1
  rounded_2
  rounded_3
  rounded_4
  rounded_5
  rounded_6
  rounded_7
  rounded_8
  rounded_9
  rounded_10
  rounded_11
  rounded_12
  rounded_13
  rounded_14
  rounded_15
  rounded_16
  rounded_17
  rounded_18
  rounded_19
  rounded_20
  rounded_21
  rounded_22
  rounded_23
  rounded_24

lemma photo_contain:
  "thumbnail_params photo 256 False aa =
     Some \<lparr>thumb_width = 256, thumb_height = 128, offset_x = 0, offset_y = 0, fill = False,
           antialias = aa, scale = Finite (8589935 / 134217728)\<rparr>"
  by (simp add: thumbnail_params_def photo_def axis_scale_def scaled_dim_def f32_of_size_t_def
      fp_min_def roundings)

lemma photo_fill:
  "thumbnail_params photo 256 True aa =
     Some \<lparr>thumb_width = 256, thumb_height = 256, offset_x = - 128, offset_y = 0, fill = True,
           antialias = aa, scale = Finite (8589935 / 67108864)\<rparr>"
  by (simp add: thumbnail_params_def photo_def axis_scale_def scaled_dim_def f32_of_size_t_def
      fp_max_def roundings)

lemma tile_contain:
  "thumbnail_params tile 8388611 False aa =
     Some \<lparr>thumb_width = 8388612, thumb_height = 8388612, offset_x = 0, offset_y = 0,
           fill = False, antialias = aa, scale = Finite (3532047 / 8)\<rparr>"
  by (simp add: thumbnail_params_def tile_def axis_scale_def scaled_dim_def f32_of_size_t_def
      fp_min_def roundings)

lemma strip_fill:
  "thumbnail_params strip 4294967296 True aa = None"
  by (simp add: thumbnail_params_def strip_def axis_scale_def scaled_dim_def f32_of_size_t_def
      fp_max_def roundings)

lemma photo_scaled:
  "scaled_dim (Finite (8589935 / 67108864)) 4000 = Some 512"
  "scaled_dim (Finite (8589935 / 67108864)) 2000 = Some 256"
  by (simp_all add: scaled_dim_def f32_of_size_t_def roundings)

subsection \<open>The geometry without fill\<close>

text \<open>
  Claim C4, as amended. For a source with positive dimensions and a target size of at
  most \<open>2^22\<close>, \<^verbatim>\<open>thumbnail_params\<close> without \<^verbatim>\<open>fill\<close> is defined; the scale
  is the smaller of the two factors \<^verbatim>\<open>1.0 / ((float)dim / size)\<close>, a \<^verbatim>\<open>float\<close>
  within a relative error of \<open>2^-21\<close> of the smaller of \<open>size / width\<close> and
  \<open>size / height\<close>; the canvas dimensions are the source dimensions times the scale
  as \<^verbatim>\<open>float\<close>, with the fraction dropped; neither exceeds the size, one of them is
  at least the size minus one; and the offsets are zero.
\<close>

theorem contain_geometry:
  assumes "frames img = full # others"
    and "0 < unat (width full)" and "0 < unat (height full)" and "unat sz \<le> 2 ^ 22"
  shows "\<exists>p s. thumbnail_params img sz False aa = Some p \<and>
     scale p = fp_min (axis_scale (width full) sz) (axis_scale (height full) sz) \<and>
     scale p = Finite s \<and>
     \<bar>s - min (of_nat (unat sz) / of_nat (unat (width full))) (of_nat (unat sz) / of_nat (unat (height full)))\<bar> \<le>
       min (of_nat (unat sz) / of_nat (unat (width full))) (of_nat (unat sz) / of_nat (unat (height full))) / 2 ^ 21 \<and>
     scaled_dim (scale p) (width full) = Some (thumb_width p) \<and>
     scaled_dim (scale p) (height full) = Some (thumb_height p) \<and>
     unat (thumb_width p) \<le> unat sz \<and> unat (thumb_height p) \<le> unat sz \<and>
     (unat sz - 1 \<le> unat (thumb_width p) \<or> unat sz - 1 \<le> unat (thumb_height p)) \<and>
     offset_x p = 0 \<and> offset_y p = 0 \<and> fill p = False \<and> antialias p = aa"
proof -
  obtain sc tw th
    where d: "fp_min (axis_scale (width full) sz) (axis_scale (height full) sz) = Finite sc"
      "scaled_dim (Finite sc) (width full) = Some tw"
      "scaled_dim (Finite sc) (height full) = Some th"
      "unat tw \<le> unat sz" "unat th \<le> unat sz"
      "unat sz - 1 \<le> unat tw \<or> unat sz - 1 \<le> unat th"
    using assms(2,3,4) by (rule contain_dimensions)
  obtain s where s: "fp_min (axis_scale (width full) sz) (axis_scale (height full) sz) = Finite s"
    "\<bar>s - min (of_nat (unat sz) / of_nat (unat (width full))) (of_nat (unat sz) / of_nat (unat (height full)))\<bar> \<le>
       min (of_nat (unat sz) / of_nat (unat (width full))) (of_nat (unat sz) / of_nat (unat (height full))) / 2 ^ 21"
    using assms(2,3) by (rule contain_scale_accuracy)
  from d(1) s(1) have e: "s = sc"
    by simp
  have "thumbnail_params img sz False aa =
      Some \<lparr>thumb_width = tw, thumb_height = th, offset_x = 0, offset_y = 0, fill = False,
            antialias = aa, scale = Finite sc\<rparr>"
    by (simp add: thumbnail_params_def assms(1) Let_def d(1,2,3))
  with d s(2) [unfolded e] show ?thesis
    by simp
qed

theorem contain_geometry_witness:
  "frames photo = \<lparr>width = 4000, height = 2000, data = 1\<rparr> # [] \<and>
   0 < unat (4000 :: size_t) \<and> 0 < unat (2000 :: size_t) \<and> unat (256 :: size_t) \<le> 2 ^ 22 \<and>
   thumbnail_params photo 256 False False =
     Some \<lparr>thumb_width = 256, thumb_height = 128, offset_x = 0, offset_y = 0, fill = False,
           antialias = False, scale = Finite (8589935 / 134217728)\<rparr> \<and>
   fp_min (axis_scale 4000 256) (axis_scale 2000 256) = Finite (8589935 / 134217728) \<and>
   \<bar>8589935 / 134217728 - min (256 / 4000) (256 / 2000)\<bar> \<le> min (256 / 4000) (256 / 2000) / (2 ^ 21 :: rat) \<and>
   scaled_dim (Finite (8589935 / 134217728)) 4000 = Some 256 \<and>
   scaled_dim (Finite (8589935 / 134217728)) 2000 = Some 128"
proof -
  have fr: "frames photo = \<lparr>width = 4000, height = 2000, data = 1\<rparr> # []"
    by (simp add: photo_def)
  have w: "0 < unat (width \<lparr>width = 4000 :: size_t, height = 2000 :: size_t, data = 1 :: nat\<rparr>)"
    and h: "0 < unat (height \<lparr>width = 4000 :: size_t, height = 2000 :: size_t, data = 1 :: nat\<rparr>)"
    and s: "unat (256 :: size_t) \<le> 2 ^ 22"
    by simp_all
  from contain_geometry [OF fr w h s, of False] w h s fr show ?thesis
    unfolding photo_contain by auto
qed

text \<open>
  The claim as stated fails for large target sizes: for a source of 19 by 19 pixels and
  the target size 8388611 both dimensions of the canvas are 8388612.
\<close>

theorem contain_exceeds_size:
  "thumbnail_params tile 8388611 False False =
     Some \<lparr>thumb_width = 8388612, thumb_height = 8388612, offset_x = 0, offset_y = 0,
           fill = False, antialias = False, scale = Finite (3532047 / 8)\<rparr> \<and>
   unat (8388611 :: size_t) < unat (8388612 :: size_t)"
  by (simp add: tile_contain)

subsection \<open>The geometry under fill\<close>

text \<open>
  Claim C5, as amended. Wherever \<^verbatim>\<open>thumbnail_params\<close> with \<^verbatim>\<open>fill\<close> is defined,
  the scale is the larger of the two factors \<^verbatim>\<open>1.0 / ((float)dim / size)\<close>, the
  canvas is the size by the size, and each offset, read as a signed number, is half the
  size minus half the scaled dimension of its axis (the source dimension times the scale
  as \<^verbatim>\<open>float\<close>, with the fraction dropped), both halves rounded down. It is defined
  for a source with positive dimensions when the size times the width and the size times
  the height are below \<open>2^62\<close>; the scale is then a \<^verbatim>\<open>float\<close> within a relative
  error of \<open>2^-21\<close> of the larger of \<open>size / width\<close> and \<open>size / height\<close>.
\<close>

theorem fill_geometry:
  assumes "frames img = full # others"
  shows "(0 < unat (width full) \<and> 0 < unat (height full) \<and>
          unat sz * unat (width full) < 2 ^ 62 \<and> unat sz * unat (height full) < 2 ^ 62 \<longrightarrow>
            (\<exists>p s. thumbnail_params img sz True aa = Some p \<and> scale p = Finite s \<and>
               \<bar>s - max (of_nat (unat sz) / of_nat (unat (width full))) (of_nat (unat sz) / of_nat (unat (height full)))\<bar> \<le>
                 max (of_nat (unat sz) / of_nat (unat (width full))) (of_nat (unat sz) / of_nat (unat (height full))) / 2 ^ 21)) \<and>
         (\<forall>p. thumbnail_params img sz True aa = Some p \<longrightarrow>
            scale p = fp_max (axis_scale (width full) sz) (axis_scale (height full) sz) \<and>
            thumb_width p = sz \<and> thumb_height p = sz \<and>
            (\<exists>tw th. scaled_dim (scale p) (width full) = Some tw \<and>
               scaled_dim (scale p) (height full) = Some th \<and>
               sint (offset_x p) = int (unat sz div 2) - int (unat tw div 2) \<and>
               sint (offset_y p) = int (unat sz div 2) - int (unat th div 2)) \<and>
            fill p \<and> antialias p = aa)"
proof (intro conjI impI allI)
  assume a: "0 < unat (width full) \<and> 0 < unat (height full) \<and>
          unat sz * unat (width full) < 2 ^ 62 \<and> unat sz * unat (height full) < 2 ^ 62"
  then obtain sc tw th
    where d: "fp_max (axis_scale (width full) sz) (axis_scale (height full) sz) = Finite sc"
      "scaled_dim (Finite sc) (width full) = Some tw"
      "scaled_dim (Finite sc) (height full) = Some th"
    using fill_defined [of "width full" "height full" sz] by blast
  from a obtain s where s: "fp_max (axis_scale (width full) sz) (axis_scale (height full) sz) = Finite s"
    "\<bar>s - max (of_nat (unat sz) / of_nat (unat (width full))) (of_nat (unat sz) / of_nat (unat (height full)))\<bar> \<le>
       max (of_nat (unat sz) / of_nat (unat (width full))) (of_nat (unat sz) / of_nat (unat (height full))) / 2 ^ 21"
    using fill_scale_accuracy [of "width full" "height full" sz] by blast
  from d(1) s(1) have e: "s = sc"
    by simp
  have "thumbnail_params img sz True aa =
      Some \<lparr>thumb_width = sz, thumb_height = sz, offset_x = sz div 2 - tw div 2,
            offset_y = sz div 2 - th div 2, fill = True, antialias = aa, scale = Finite sc\<rparr>"
    by (simp add: thumbnail_params_def assms Let_def d)
  with s(2) [unfolded e] show "\<exists>p s. thumbnail_params img sz True aa = Some p \<and> scale p = Finite s \<and>
               \<bar>s - max (of_nat (unat sz) / of_nat (unat (width full))) (of_nat (unat sz) / of_nat (unat (height full)))\<bar> \<le>
                 max (of_nat (unat sz) / of_nat (unat (width full))) (of_nat (unat sz) / of_nat (unat (height full))) / 2 ^ 21"
    by simp
next
  fix p
  assume p: "thumbnail_params img sz True aa = Some p"
  let ?sc = "fp_max (axis_scale (width full) sz) (axis_scale (height full) sz)"
  from p obtain tw th where d: "scaled_dim ?sc (width full) = Some tw"
      "scaled_dim ?sc (height full) = Some th"
    and e: "p = \<lparr>thumb_width = sz, thumb_height = sz, offset_x = sz div 2 - tw div 2,
                  offset_y = sz div 2 - th div 2, fill = True, antialias = aa, scale = ?sc\<rparr>"
    by (auto simp: thumbnail_params_def assms Let_def split: option.splits)
  show "scale p = ?sc" "thumb_width p = sz" "thumb_height p = sz" "fill p" "antialias p = aa"
    by (simp_all add: e)
  show "\<exists>tw th. scaled_dim (scale p) (width full) = Some tw \<and>
               scaled_dim (scale p) (height full) = Some th \<and>
               sint (offset_x p) = int (unat sz div 2) - int (unat tw div 2) \<and>
               sint (offset_y p) = int (unat sz div 2) - int (unat th div 2)"
    using d by (simp add: e offset_signed)
qed

theorem fill_geometry_witness:
  "frames photo = \<lparr>width = 4000, height = 2000, data = 1\<rparr> # [] \<and>
   0 < unat (4000 :: size_t) \<and> 0 < unat (2000 :: size_t) \<and>
   unat (256 :: size_t) * unat (4000 :: size_t) < 2 ^ 62 \<and>
   unat (256 :: size_t) * unat (2000 :: size_t) < 2 ^ 62 \<and>
   thumbnail_params photo 256 True False =
     Some \<lparr>thumb_width = 256, thumb_height = 256, offset_x = - 128, offset_y = 0, fill = True,
           antialias = False, scale = Finite (8589935 / 67108864)\<rparr> \<and>
   fp_max (axis_scale 4000 256) (axis_scale 2000 256) = Finite (8589935 / 67108864) \<and>
   \<bar>8589935 / 67108864 - max (256 / 4000) (256 / 2000)\<bar> \<le> max (256 / 4000) (256 / 2000) / (2 ^ 21 :: rat) \<and>
   scaled_dim (Finite (8589935 / 67108864)) 4000 = Some 512 \<and>
   scaled_dim (Finite (8589935 / 67108864)) 2000 = Some 256 \<and>
   sint (- 128 :: ssize_t) = 128 - 256 \<and> sint (0 :: ssize_t) = 128 - 128"
proof -
  have fr: "frames photo = \<lparr>width = 4000, height = 2000, data = 1\<rparr> # []"
    by (simp add: photo_def)
  from fill_geometry [OF fr, of 256 False]
  have "fp_max (axis_scale 4000 256) (axis_scale 2000 256) = Finite (8589935 / 67108864)"
    unfolding photo_fill by auto
  with fr show ?thesis
    by (simp add: photo_fill photo_scaled)
qed

text \<open>
  The claim as stated fails where a scaled dimension is not a value of \<^verbatim>\<open>size_t\<close>:
  for a source of \<open>2^32\<close> by 1 pixels and the target size \<open>2^32\<close> the scale is
  \<open>2^32\<close> and the scaled width \<open>2^64\<close>, whose conversion is undefined.
\<close>

theorem fill_undefined:
  "thumbnail_params strip 4294967296 True False = None \<and>
   fp_max (axis_scale 4294967296 4294967296) (axis_scale 1 4294967296) = Finite 4294967296 \<and>
   fp_mul f32_round (Finite 4294967296) (f32_of_size_t 4294967296) = Finite (2 ^ 64)"
  by (simp add: strip_fill) (simp add: axis_scale_def f32_of_size_t_def fp_max_def roundings)

end
